theory Spec2Isabelle
  imports Main "HOL-Library.Sublist"
begin

section \<open>The database server as seen by the script\<close>

text \<open>
  The script \<^verbatim>\<open>pg_ext_demo.py\<close> drives a PostgreSQL server through psycopg2. The
  server is outside the repository; it is modelled as far as the lifecycle needs it: the
  objects the script creates and drops, and whether a statement succeeds.

  The fields of \<open>db\<close> are the catalog entries the script touches: the row of
  \<^verbatim>\<open>pg_settings\<close> for \<^verbatim>\<open>shared_preload_libraries\<close> (its setting, \<open>None\<close> when the
  row is missing), the names in \<^verbatim>\<open>pg_extension\<close>, the schema \<^verbatim>\<open>__demo\<close>, the
  session's search path, the role \<^verbatim>\<open>__monitor\<close>, the table \<^verbatim>\<open>__demo.addr\<close> with its
  two indexes, the function \<^verbatim>\<open>__demo.pg_stat_statements()\<close>, and the three privileges
  granted to the role.
\<close>

record db =
  preload :: "string option"
  exts :: "string list"
  schema :: bool
  search_path_demo :: bool
  role :: bool
  addr_table :: bool
  ix_btree :: bool
  ix_gin :: bool
  func :: bool
  grant_db :: bool
  grant_schema :: bool
  grant_func :: bool

text \<open>One constructor for each SQL text of the script, in the order of the source.\<close>

datatype stmt =
    SelectPreload
  | CreateSchema
  | CreateExtension string
  | SetSearchPath
  | RevokeFunction
  | RevokeSchema
  | RevokeDatabase
  | DropSchema
  | DropRole
  | SelectDemoExtensions
  | DropExtension string
  | PssReset
  | Query1
  | Query2
  | Query3
  | SelectPss
  | CreateUser
  | GrantConnect
  | GrantUsage
  | AlterUserSearchPath
  | SelectPssUnqualified
  | CreateFunction
  | GrantExecute
  | SelectCurrentUser
  | CallFunction
  | CreateTable
  | CopyAddr
  | Analyze
  | CreateBtreeIndex
  | ExplainPrefix
  | ExplainInfix
  | CreateGinIndex
  | SelectExtensions

definition demo_extensions :: "string list" where
  "demo_extensions = [''pg_trgm'', ''pg_stat_statements'']"

text \<open>
  The effect of a statement that the server accepts, \<open>None\<close> when the server rejects it.
  \<^verbatim>\<open>create schema\<close>, \<^verbatim>\<open>create extension\<close>, \<^verbatim>\<open>create user\<close> and \<^verbatim>\<open>create table\<close>
  are rejected when their object exists; the statements written with \<^verbatim>\<open>if exists\<close>,
  \<^verbatim>\<open>if not exists\<close> or \<^verbatim>\<open>or replace\<close> are not; a statement naming an object that is
  missing is rejected; \<^verbatim>\<open>drop schema ... cascade\<close> takes the contained objects and the
  privileges on them along; a role that still holds a privilege cannot be dropped.
\<close>

fun sem :: "stmt \<Rightarrow> db \<Rightarrow> db option" where
  "sem SelectPreload d = Some d"
| "sem CreateSchema d = (if schema d then None else Some (d\<lparr>schema := True\<rparr>))"
| "sem (CreateExtension e) d =
     (if e \<in> set (exts d) then None else Some (d\<lparr>exts := exts d @ [e]\<rparr>))"
| "sem SetSearchPath d = Some (d\<lparr>search_path_demo := True\<rparr>)"
| "sem RevokeFunction d =
     (if role d \<and> func d then Some (d\<lparr>grant_func := False\<rparr>) else None)"
| "sem RevokeSchema d =
     (if role d \<and> schema d then Some (d\<lparr>grant_schema := False\<rparr>) else None)"
| "sem RevokeDatabase d = (if role d then Some (d\<lparr>grant_db := False\<rparr>) else None)"
| "sem DropSchema d =
     Some (d\<lparr>schema := False, addr_table := False, ix_btree := False, ix_gin := False,
             func := False, grant_schema := False, grant_func := False\<rparr>)"
| "sem DropRole d =
     (if \<not> role d then Some d
      else if grant_db d \<or> grant_schema d \<or> grant_func d then None
      else Some (d\<lparr>role := False\<rparr>))"
| "sem SelectDemoExtensions d = Some d"
| "sem (DropExtension e) d = Some (d\<lparr>exts := removeAll e (exts d)\<rparr>)"
| "sem PssReset d = (if ''pg_stat_statements'' \<in> set (exts d) then Some d else None)"
| "sem Query1 d = (if addr_table d then Some d else None)"
| "sem Query2 d = (if addr_table d then Some d else None)"
| "sem Query3 d = (if addr_table d then Some d else None)"
| "sem SelectPss d = (if ''pg_stat_statements'' \<in> set (exts d) then Some d else None)"
| "sem CreateUser d = (if role d then None else Some (d\<lparr>role := True\<rparr>))"
| "sem GrantConnect d = (if role d then Some (d\<lparr>grant_db := True\<rparr>) else None)"
| "sem GrantUsage d =
     (if role d \<and> schema d then Some (d\<lparr>grant_schema := True\<rparr>) else None)"
| "sem AlterUserSearchPath d = (if role d then Some d else None)"
| "sem SelectPssUnqualified d =
     (if ''pg_stat_statements'' \<in> set (exts d) then Some d else None)"
| "sem CreateFunction d =
     (if schema d \<and> ''pg_stat_statements'' \<in> set (exts d)
      then Some (d\<lparr>func := True\<rparr>) else None)"
| "sem GrantExecute d =
     (if role d \<and> func d then Some (d\<lparr>grant_func := True\<rparr>) else None)"
| "sem SelectCurrentUser d = Some d"
| "sem CallFunction d =
     (if func d \<and> grant_func d \<and> grant_schema d then Some d else None)"
| "sem CreateTable d =
     (if schema d \<and> \<not> addr_table d then Some (d\<lparr>addr_table := True\<rparr>) else None)"
| "sem CopyAddr d = (if addr_table d then Some d else None)"
| "sem Analyze d = (if addr_table d then Some d else None)"
| "sem CreateBtreeIndex d = (if addr_table d then Some (d\<lparr>ix_btree := True\<rparr>) else None)"
| "sem ExplainPrefix d = (if addr_table d then Some d else None)"
| "sem ExplainInfix d = (if addr_table d then Some d else None)"
| "sem CreateGinIndex d =
     (if addr_table d \<and> ''pg_trgm'' \<in> set (exts d)
      then Some (d\<lparr>ix_gin := True\<rparr>) else None)"
| "sem SelectExtensions d = Some d"

text \<open>
  The rows a statement returns, one column each. Only three result sets are read by the
  script's control flow; the others are printed.
\<close>

fun rows :: "stmt \<Rightarrow> db \<Rightarrow> string list" where
  "rows SelectPreload d = (case preload d of None \<Rightarrow> [] | Some s \<Rightarrow> [s])"
| "rows SelectExtensions d = exts d"
| "rows SelectDemoExtensions d = filter (\<lambda>e. e \<in> set demo_extensions) (exts d)"
| "rows s d = []"

section \<open>Sessions, exceptions and the trace\<close>

text \<open>
  psycopg2's transaction status of a connection: no transaction, a transaction begun by
  the first statement, or a transaction aborted by a failed statement (every further
  statement is rejected until a rollback).
\<close>

datatype txn_status = Idle | InTxn | Aborted

text \<open>
  The exceptions of the run. \<open>DbError s\<close> is the psycopg2 error raised by statement
  \<open>s\<close>; all but \<open>KeyboardInterrupt\<close> derive from Python's \<^verbatim>\<open>Exception\<close>.
\<close>

datatype exn = DbError stmt | ConnectError | ProgrammingError | KeyboardInterrupt

fun is_Exception :: "exn \<Rightarrow> bool" where
  "is_Exception KeyboardInterrupt = False"
| "is_Exception e = True"

text \<open>
  Every operation on a session and every prompt is recorded, whether it succeeds or not.
  \<open>Exec\<close>, \<open>Commit\<close>, \<open>Rollback\<close> and \<open>SetAutocommit\<close> belong to the primary session
  \<^verbatim>\<open>conn\<close>, the \<open>U\<close> events to the session \<^verbatim>\<open>uconn\<close> of the restricted role.
\<close>

datatype event =
    Connect
  | Exec stmt
  | Commit
  | Rollback
  | SetAutocommit bool
  | Prompt
  | UConnect
  | UExec stmt
  | URollback
  | UClose

text \<open>
  The state a run works on: the committed database, the primary session's view of it
  inside its transaction, the session's status and autocommit flag, the secondary
  session, the module's global \<^verbatim>\<open>EXTENSIONS\<close>, the trace, and the failures the
  environment forces: \<open>faults w n\<close> makes the operation recorded at position \<open>n\<close> of the
  trace fail (a statement, a connection attempt, or a prompt interrupted by the user).
  \<^verbatim>\<open>commit\<close>, \<^verbatim>\<open>rollback\<close> and \<^verbatim>\<open>close\<close> are taken to succeed.
\<close>

record world =
  db_committed :: db
  db_working :: db
  txn :: txn_status
  autocommit :: bool
  uconn_open :: bool
  utxn :: txn_status
  EXTENSIONS :: "string set"
  trace :: "event list"
  faults :: "nat \<Rightarrow> bool"

type_synonym 'a prog = "world \<Rightarrow> (exn + 'a) \<times> world"

definition return :: "'a \<Rightarrow> 'a prog" where
  "return a w = (Inr a, w)"

definition raise :: "exn \<Rightarrow> 'a prog" where
  "raise e w = (Inl e, w)"

definition bind :: "'a prog \<Rightarrow> ('a \<Rightarrow> 'b prog) \<Rightarrow> 'b prog" where
  "bind m f w = (case m w of (Inl e, w') \<Rightarrow> (Inl e, w') | (Inr a, w') \<Rightarrow> f a w')"

text \<open>A suite of statements run for their effect.\<close>

primrec block :: "unit prog list \<Rightarrow> unit prog" where
  "block [] = return ()"
| "block (m # ms) = bind m (\<lambda>_. block ms)"

text \<open>\<^verbatim>\<open>for x in xs: body\<close> and \<^verbatim>\<open>for _ in range(n): body\<close>.\<close>

primrec for_each :: "'a list \<Rightarrow> ('a \<Rightarrow> unit prog) \<Rightarrow> unit prog" where
  "for_each [] f = return ()"
| "for_each (x # xs) f = bind (f x) (\<lambda>_. for_each xs f)"

primrec repeat :: "nat \<Rightarrow> unit prog \<Rightarrow> unit prog" where
  "repeat 0 m = return ()"
| "repeat (Suc n) m = bind m (\<lambda>_. repeat n m)"

text \<open>
  \<^verbatim>\<open>try: m except Exception as e: h(e)\<close>, the same with an \<^verbatim>\<open>else\<close> suite (whose
  exceptions the handler does not see), and \<^verbatim>\<open>try: m finally: fin\<close> (an exception of
  \<open>fin\<close> replaces the outcome of \<open>m\<close>).
\<close>

definition try_except :: "'a prog \<Rightarrow> (exn \<Rightarrow> 'a prog) \<Rightarrow> 'a prog" where
  "try_except m h w =
     (case m w of
        (Inl e, w') \<Rightarrow> if is_Exception e then h e w' else (Inl e, w')
      | (Inr a, w') \<Rightarrow> (Inr a, w'))"

definition try_except_else :: "'a prog \<Rightarrow> (exn \<Rightarrow> 'b prog) \<Rightarrow> 'b prog \<Rightarrow> 'b prog" where
  "try_except_else m h els w =
     (case m w of
        (Inl e, w') \<Rightarrow> if is_Exception e then h e w' else (Inl e, w')
      | (Inr a, w') \<Rightarrow> els w')"

definition try_finally :: "'a prog \<Rightarrow> unit prog \<Rightarrow> 'a prog" where
  "try_finally m fin w =
     (case m w of (r, w') \<Rightarrow>
        (case fin w' of (Inl e, w'') \<Rightarrow> (Inl e, w'') | (Inr u, w'') \<Rightarrow> (r, w'')))"

subsection \<open>psycopg2 operations\<close>

definition record_event :: "event \<Rightarrow> world \<Rightarrow> world" where
  "record_event ev w = w\<lparr>trace := trace w @ [ev]\<rparr>"

definition faulted :: "world \<Rightarrow> bool" where
  "faulted w = faults w (length (trace w))"

text \<open>
  \<^verbatim>\<open>execute(conn, sql)\<close>: \<^verbatim>\<open>cur.execute\<close> on the primary session, returning the rows
  of the cursor. Without autocommit the first statement begins a transaction and a
  failure aborts it; with autocommit each statement is committed at once.
\<close>

definition execute :: "stmt \<Rightarrow> string list prog" where
  "execute s w =
     (let w1 = record_event (Exec s) w in
      if faulted w \<or> txn w = Aborted then
        (Inl (DbError s), w1\<lparr>txn := (if autocommit w then txn w else Aborted)\<rparr>)
      else
        (case sem s (db_working w) of
           None \<Rightarrow> (Inl (DbError s), w1\<lparr>txn := (if autocommit w then txn w else Aborted)\<rparr>)
         | Some d \<Rightarrow>
             (Inr (rows s (db_working w)),
              if autocommit w then w1\<lparr>db_working := d, db_committed := d\<rparr>
              else w1\<lparr>db_working := d, txn := InTxn\<rparr>)))"

definition exec_stmt :: "stmt \<Rightarrow> unit prog" where
  "exec_stmt s = bind (execute s) (\<lambda>_. return ())"

definition fetchone :: "string list \<Rightarrow> string option" where
  "fetchone rs = (case rs of [] \<Rightarrow> None | r # _ \<Rightarrow> Some r)"

definition commit :: "unit prog" where
  "commit w =
     (let w1 = record_event Commit w in
      (Inr (),
       (case txn w of
          Idle \<Rightarrow> w1
        | InTxn \<Rightarrow> w1\<lparr>db_committed := db_working w, txn := Idle\<rparr>
        | Aborted \<Rightarrow> w1\<lparr>db_working := db_committed w, txn := Idle\<rparr>)))"

definition rollback :: "unit prog" where
  "rollback w = (Inr (), (record_event Rollback w)\<lparr>db_working := db_committed w, txn := Idle\<rparr>)"

text \<open>\<^verbatim>\<open>conn.autocommit = b\<close>, which psycopg2 refuses inside a transaction.\<close>

definition set_autocommit :: "bool \<Rightarrow> unit prog" where
  "set_autocommit b w =
     (let w1 = record_event (SetAutocommit b) w in
      if txn w \<noteq> Idle then (Inl ProgrammingError, w1) else (Inr (), w1\<lparr>autocommit := b\<rparr>))"

text \<open>\<^verbatim>\<open>prompt(message)\<close>: waits for the user, who may interrupt.\<close>

definition prompt :: "unit prog" where
  "prompt w =
     (let w1 = record_event Prompt w in
      if faulted w then (Inl KeyboardInterrupt, w1) else (Inr (), w1))"

text \<open>\<^verbatim>\<open>connect(db_url)\<close> for the primary session.\<close>

definition connect :: "unit prog" where
  "connect w =
     (let w1 = record_event Connect w in
      if faulted w then (Inl ConnectError, w1)
      else (Inr (), w1\<lparr>db_working := db_committed w, txn := Idle, autocommit := False\<rparr>))"

text \<open>
  The secondary session logs in as the restricted role, reads the committed database and
  never writes.
\<close>

definition uconnect :: "unit prog" where
  "uconnect w =
     (let w1 = record_event UConnect w in
      if faulted w \<or> \<not> role (db_committed w) then (Inl ConnectError, w1)
      else (Inr (), w1\<lparr>uconn_open := True, utxn := Idle\<rparr>))"

definition uexecute :: "stmt \<Rightarrow> string list prog" where
  "uexecute s w =
     (let w1 = record_event (UExec s) w in
      if faulted w \<or> \<not> uconn_open w \<or> utxn w = Aborted \<or> sem s (db_committed w) = None
      then (Inl (DbError s), w1\<lparr>utxn := Aborted\<rparr>)
      else (Inr (rows s (db_committed w)), w1\<lparr>utxn := InTxn\<rparr>))"

definition uexec_stmt :: "stmt \<Rightarrow> unit prog" where
  "uexec_stmt s = bind (uexecute s) (\<lambda>_. return ())"

definition urollback :: "unit prog" where
  "urollback w = (Inr (), (record_event URollback w)\<lparr>utxn := Idle\<rparr>)"

definition uclose :: "unit prog" where
  "uclose w = (Inr (), (record_event UClose w)\<lparr>uconn_open := False\<rparr>)"

text \<open>
  \<^verbatim>\<open>with connect(db_url) as conn: body\<close>: psycopg2's connection context commits when
  the body ends normally and rolls back when it raises; the exception goes on.
\<close>

definition with_connect :: "unit prog \<Rightarrow> unit prog" where
  "with_connect body =
     bind connect (\<lambda>_ w.
       case body w of
         (Inl e, w') \<Rightarrow> (Inl e, snd (rollback w'))
       | (Inr u, w') \<Rightarrow> commit w')"

section \<open>The script\<close>

definition check_preload_library :: "string \<Rightarrow> bool prog" where
  "check_preload_library lib_name =
     bind (execute SelectPreload) (\<lambda>rs.
       case fetchone rs of
         None \<Rightarrow> return False
       | Some setting \<Rightarrow> if \<not> sublist lib_name setting then return False else return True)"

definition setup_demo :: "unit prog" where
  "setup_demo =
     try_except_else
       (block [
          exec_stmt CreateSchema,
          (\<lambda>w. if ''pg_trgm'' \<notin> EXTENSIONS w
                then exec_stmt (CreateExtension ''pg_trgm'') w else return () w),
          (\<lambda>w. if ''pg_stat_statements'' \<notin> EXTENSIONS w
                then exec_stmt (CreateExtension ''pg_stat_statements'') w else return () w),
          exec_stmt SetSearchPath])
       (\<lambda>e. bind rollback (\<lambda>_. raise e))
       commit"

text \<open>
  \<^verbatim>\<open>teardown_demo\<close> in its three parts: the guarded revokes, the drops of the schema and
  the role with their commit, and the cleanup of the extensions with its commit.
\<close>

definition teardown_revokes :: "unit prog" where
  "teardown_revokes =
     block [
       try_except (exec_stmt RevokeFunction) (\<lambda>e. rollback),
       try_except (exec_stmt RevokeSchema) (\<lambda>e. rollback),
       try_except (exec_stmt RevokeDatabase) (\<lambda>e. rollback)]"

definition teardown_drops :: "unit prog" where
  "teardown_drops = block [exec_stmt DropSchema, exec_stmt DropRole, commit]"

definition teardown_extensions :: "unit prog" where
  "teardown_extensions =
     block [
       bind (execute SelectDemoExtensions) (\<lambda>rs.
         for_each rs (\<lambda>ext w.
           if ext \<notin> EXTENSIONS w then exec_stmt (DropExtension ext) w else return () w)),
       commit]"

definition teardown_demo :: "unit prog" where
  "teardown_demo = block [teardown_revokes, teardown_drops, teardown_extensions]"

definition intro_pg_stat_statements :: "unit prog" where
  "intro_pg_stat_statements = prompt"

definition demo_pss_table :: "unit prog" where
  "demo_pss_table =
     block [
       exec_stmt PssReset,
       commit,
       prompt,
       repeat 5 (exec_stmt Query1),
       exec_stmt Query2,
       repeat 3 (exec_stmt Query3),
       prompt,
       exec_stmt SelectPss,
       rollback,
       prompt]"

definition create_unpriveleged_user :: "unit prog" where
  "create_unpriveleged_user =
     block [exec_stmt CreateUser, exec_stmt GrantConnect, exec_stmt GrantUsage, exec_stmt AlterUserSearchPath,
            commit]"

definition demo_unprivileged_user :: "bool \<Rightarrow> unit prog" where
  "demo_unprivileged_user init_demo =
     block [
       prompt,
       (if init_demo then create_unpriveleged_user else return ()),
       uconnect,
       try_finally
         (block [
            uexec_stmt SelectPssUnqualified,
            prompt,
            exec_stmt CreateFunction,
            exec_stmt GrantExecute,
            commit,
            uexec_stmt SelectCurrentUser,
            prompt,
            uexec_stmt CallFunction,
            prompt])
         (block [urollback, uclose]),
       rollback]"

definition demo_pg_stat_statements :: "bool \<Rightarrow> unit prog" where
  "demo_pg_stat_statements init_demo =
     block [intro_pg_stat_statements, demo_pss_table, demo_unprivileged_user init_demo]"

definition create_addr_table :: "unit prog" where
  "create_addr_table = block [exec_stmt CreateTable, commit]"

definition copy_addr_data :: "unit prog" where
  "copy_addr_data = block [exec_stmt CopyAddr, commit]"

definition load_addr_table :: "unit prog" where
  "load_addr_table = block [repeat 10 copy_addr_data, commit]"

definition init_pg_trgm :: "unit prog" where
  "init_pg_trgm =
     try_except_else
       (block [create_addr_table, load_addr_table])
       (\<lambda>e. bind rollback (\<lambda>_. raise e))
       (block [set_autocommit True, exec_stmt Analyze, set_autocommit False, prompt])"

definition create_addr_btree_index :: "unit prog" where
  "create_addr_btree_index =
     block [exec_stmt CreateBtreeIndex, commit,
            set_autocommit True, exec_stmt Analyze, set_autocommit False]"

definition test_addr_btree_index :: "unit prog" where
  "test_addr_btree_index =
     block [exec_stmt ExplainPrefix, prompt, exec_stmt ExplainInfix, rollback, prompt]"

definition create_addr_gin_index :: "unit prog" where
  "create_addr_gin_index =
     block [exec_stmt CreateGinIndex, commit,
            set_autocommit True, exec_stmt Analyze, set_autocommit False]"

definition test_addr_gin_index :: "unit prog" where
  "test_addr_gin_index =
     block [exec_stmt ExplainPrefix, prompt, exec_stmt ExplainInfix, rollback, prompt]"

definition intro_pg_trgm :: "unit prog" where
  "intro_pg_trgm = prompt"

definition demo_pg_trgm :: "bool \<Rightarrow> unit prog" where
  "demo_pg_trgm init_demo =
     block [
       intro_pg_trgm,
       (if init_demo then init_pg_trgm else return ()),
       prompt,
       create_addr_btree_index,
       test_addr_btree_index,
       prompt,
       create_addr_gin_index,
       test_addr_gin_index,
       prompt]"

text \<open>\<^verbatim>\<open>EXTENSIONS.add(extname)\<close> on the module's global set.\<close>

definition EXTENSIONS_add :: "string \<Rightarrow> unit prog" where
  "EXTENSIONS_add extname w = (Inr (), w\<lparr>EXTENSIONS := insert extname (EXTENSIONS w)\<rparr>)"

definition check_existing_extensions :: "unit prog" where
  "check_existing_extensions =
     block [
       bind (execute SelectExtensions) (\<lambda>rs.
         for_each rs EXTENSIONS_add),
       rollback]"

definition validate_demo :: "bool prog" where
  "validate_demo =
     bind (check_preload_library ''pg_stat_statements'') (\<lambda>loaded.
       if loaded then bind check_existing_extensions (\<lambda>_. return True)
       else return False)"

text \<open>
  \<^verbatim>\<open>run_demo\<close>: the suite under \<^verbatim>\<open>try\<close>, the suite under \<^verbatim>\<open>finally\<close>, and both
  inside the connection context.
\<close>

definition run_demo_try :: "bool \<Rightarrow> bool \<Rightarrow> unit prog" where
  "run_demo_try init_demo block_demo =
     (if \<not> block_demo then
        bind validate_demo (\<lambda>valid.
          if valid then
            block [
              (if init_demo then setup_demo else return ()),
              demo_pg_trgm init_demo,
              demo_pg_stat_statements init_demo]
          else return ())
      else return ())"

definition run_demo_finally :: "bool \<Rightarrow> bool \<Rightarrow> unit prog" where
  "run_demo_finally teardown block_demo =
     (if teardown \<or> block_demo then teardown_demo else return ())"

definition run_demo :: "bool \<Rightarrow> bool \<Rightarrow> bool \<Rightarrow> unit prog" where
  "run_demo init_demo teardown block_demo =
     with_connect
       (try_finally (run_demo_try init_demo block_demo)
                    (run_demo_finally teardown block_demo))"

section \<open>Notions used by the properties\<close>

text \<open>The events a program records when it is run in \<open>w\<close>.\<close>

definition issued :: "'a prog \<Rightarrow> world \<Rightarrow> event list" where
  "issued m w = drop (length (trace w)) (trace (snd (m w)))"

text \<open>The statements that only \<^verbatim>\<open>teardown_demo\<close> issues.\<close>

fun is_teardown_stmt :: "stmt \<Rightarrow> bool" where
  "is_teardown_stmt RevokeFunction = True"
| "is_teardown_stmt RevokeSchema = True"
| "is_teardown_stmt RevokeDatabase = True"
| "is_teardown_stmt DropSchema = True"
| "is_teardown_stmt DropRole = True"
| "is_teardown_stmt SelectDemoExtensions = True"
| "is_teardown_stmt (DropExtension e) = True"
| "is_teardown_stmt s = False"

text \<open>What \<^verbatim>\<open>teardown_demo\<close> may record.\<close>

fun is_teardown_event :: "event \<Rightarrow> bool" where
  "is_teardown_event (Exec s) = is_teardown_stmt s"
| "is_teardown_event Commit = True"
| "is_teardown_event Rollback = True"
| "is_teardown_event ev = False"

text \<open>
  What a run may record when validation finds the capability inactive: the connection,
  the query of the setting, teardown's events, and the commit or rollback of the
  connection context. Statements of setup and of the demos, prompts and the secondary
  session are excluded.
\<close>

fun is_gated_event :: "event \<Rightarrow> bool" where
  "is_gated_event Connect = True"
| "is_gated_event (Exec s) = (s = SelectPreload \<or> is_teardown_stmt s)"
| "is_gated_event Commit = True"
| "is_gated_event Rollback = True"
| "is_gated_event ev = False"

text \<open>The statements among the events.\<close>

fun is_exec :: "event \<Rightarrow> bool" where
  "is_exec (Exec s) = True"
| "is_exec ev = False"

text \<open>The events that do not touch the secondary session.\<close>

fun is_primary_or_prompt :: "event \<Rightarrow> bool" where
  "is_primary_or_prompt UConnect = False"
| "is_primary_or_prompt (UExec s) = False"
| "is_primary_or_prompt URollback = False"
| "is_primary_or_prompt UClose = False"
| "is_primary_or_prompt ev = True"

text \<open>
  The two parts of \<^verbatim>\<open>demo_unprivileged_user\<close> around the acquisition of the secondary
  session: what runs up to and including \<^verbatim>\<open>connect\<close>, and the suite under \<^verbatim>\<open>try\<close>.
\<close>

abbreviation acquire_uconn :: "bool \<Rightarrow> unit prog" where
  "acquire_uconn init_demo \<equiv>
     block [prompt, (if init_demo then create_unpriveleged_user else return ()), uconnect]"

abbreviation use_uconn :: "unit prog" where
  "use_uconn \<equiv>
     block [uexec_stmt SelectPssUnqualified, prompt, exec_stmt CreateFunction,
            exec_stmt GrantExecute, commit, uexec_stmt SelectCurrentUser, prompt,
            uexec_stmt CallFunction, prompt]"

text \<open>The events of the primary session.\<close>

fun is_primary :: "event \<Rightarrow> bool" where
  "is_primary (Exec s) = True"
| "is_primary Commit = True"
| "is_primary Rollback = True"
| "is_primary (SetAutocommit b) = True"
| "is_primary ev = False"

text \<open>A property of the state that a program keeps, however it ends.\<close>

definition invariant :: "(world \<Rightarrow> bool) \<Rightarrow> 'a prog \<Rightarrow> bool" where
  "invariant I m = (\<forall>w. I w \<longrightarrow> I (snd (m w)))"

text \<open>
  A property kept by the statements that satisfy \<open>P\<close> and by commit and rollback on
  the primary session; and a property kept, besides, by every other operation of the
  library.
\<close>

definition kept_by_session :: "(stmt \<Rightarrow> bool) \<Rightarrow> (world \<Rightarrow> bool) \<Rightarrow> bool" where
  "kept_by_session P I =
     ((\<forall>s. P s \<longrightarrow> invariant I (execute s)) \<and> invariant I commit \<and> invariant I rollback)"

definition kept_by_operations :: "(stmt \<Rightarrow> bool) \<Rightarrow> (world \<Rightarrow> bool) \<Rightarrow> bool" where
  "kept_by_operations P I =
     (kept_by_session P I \<and> (\<forall>s. invariant I (uexecute s)) \<and>
      (\<forall>b. invariant I (set_autocommit b)) \<and>
      invariant I prompt \<and> invariant I uconnect \<and> invariant I urollback \<and>
      invariant I uclose)"

text \<open>
  The statements of setup in the order of the source, for a registry \<open>X\<close>: the schema,
  each of the two extensions that the registry does not hold, the search path.
\<close>

definition setup_statements :: "string set \<Rightarrow> stmt list" where
  "setup_statements X =
     CreateSchema #
     (if ''pg_trgm'' \<notin> X then [CreateExtension ''pg_trgm''] else []) @
     (if ''pg_stat_statements'' \<notin> X then [CreateExtension ''pg_stat_statements''] else []) @
     [SetSearchPath]"

text \<open>A bound on the exceptions that a program lets through.\<close>

definition raises_only :: "(exn \<Rightarrow> bool) \<Rightarrow> 'a prog \<Rightarrow> bool" where
  "raises_only E m = (\<forall>w e. fst (m w) = Inl e \<longrightarrow> E e)"

text \<open>The errors of the three revoke statements.\<close>

fun is_revoke_error :: "exn \<Rightarrow> bool" where
  "is_revoke_error (DbError RevokeFunction) = True"
| "is_revoke_error (DbError RevokeSchema) = True"
| "is_revoke_error (DbError RevokeDatabase) = True"
| "is_revoke_error e = False"

text \<open>
  The database once teardown has gone through: the namespace with all it contained and
  the restricted role are absent.
\<close>

definition torn_down :: "db \<Rightarrow> bool" where
  "torn_down d =
     (\<not> schema d \<and> \<not> role d \<and> \<not> addr_table d \<and> \<not> ix_btree d \<and> \<not> ix_gin d \<and>
      \<not> func d \<and> \<not> grant_schema d \<and> \<not> grant_func d)"

text \<open>
  States for the examples: a server with the library preloaded, \<^verbatim>\<open>plpgsql\<close> installed
  and none of the demo's objects; the same server as a complete demo leaves it when
  teardown is skipped; and a process that has just imported the module, over a database
  \<open>d\<close> and with forced failures \<open>f\<close>.
\<close>

definition stock_db :: db where
  "stock_db =
     \<lparr>preload = Some ''pg_stat_statements'', exts = [''plpgsql''], schema = False,
      search_path_demo = False, role = False, addr_table = False, ix_btree = False,
      ix_gin = False, func = False, grant_db = False, grant_schema = False,
      grant_func = False\<rparr>"

definition installed_db :: db where
  "installed_db =
     \<lparr>preload = Some ''pg_stat_statements'',
      exts = [''plpgsql'', ''pg_trgm'', ''pg_stat_statements''], schema = True,
      search_path_demo = True, role = True, addr_table = True, ix_btree = True,
      ix_gin = True, func = True, grant_db = True, grant_schema = True,
      grant_func = True\<rparr>"

definition process_start :: "db \<Rightarrow> (nat \<Rightarrow> bool) \<Rightarrow> world" where
  "process_start d f =
     \<lparr>db_committed = d, db_working = d, txn = Idle, autocommit = False, uconn_open = False,
      utxn = Idle, EXTENSIONS = {}, trace = [], faults = f\<rparr>"

section \<open>Properties kept by every operation\<close>

lemma invariant_return: "invariant I (return a)"
  by (simp add: invariant_def return_def)

lemma invariant_raise: "invariant I (raise e)"
  by (simp add: invariant_def raise_def)

lemma invariant_bind:
  assumes "invariant I m" and "\<And>a. invariant I (f a)"
  shows "invariant I (bind m f)"
  using assms unfolding invariant_def bind_def
  by (auto split: prod.splits sum.splits)

lemma invariant_block:
  assumes "\<And>m. m \<in> set ms \<Longrightarrow> invariant I m"
  shows "invariant I (block ms)"
  using assms by (induction ms) (auto intro: invariant_return invariant_bind)

lemma invariant_block_Cons:
  "invariant I m \<Longrightarrow> invariant I (block ms) \<Longrightarrow> invariant I (block (m # ms))"
  by (simp add: invariant_bind)

lemma invariant_block_Nil: "invariant I (block [])"
  by (simp add: invariant_return)

lemma invariant_for_each:
  assumes "\<And>x. invariant I (f x)"
  shows "invariant I (for_each xs f)"
  using assms by (induction xs) (auto intro: invariant_return invariant_bind)

lemma invariant_repeat:
  assumes "invariant I m"
  shows "invariant I (repeat n m)"
  using assms by (induction n) (auto intro: invariant_return invariant_bind)

lemma invariant_try_except:
  assumes "invariant I m" and "\<And>e. invariant I (h e)"
  shows "invariant I (try_except m h)"
  using assms unfolding invariant_def try_except_def
  by (auto split: prod.splits sum.splits)

lemma invariant_try_except_else:
  assumes "invariant I m" and "\<And>e. invariant I (h e)" and "invariant I els"
  shows "invariant I (try_except_else m h els)"
  using assms unfolding invariant_def try_except_else_def
  by (auto split: prod.splits sum.splits)

lemma invariant_try_finally:
  assumes "invariant I m" and "invariant I fin"
  shows "invariant I (try_finally m fin)"
  using assms unfolding invariant_def try_finally_def
  by (auto split: prod.splits sum.splits)

lemma invariant_if:
  assumes "invariant I m" and "invariant I m'"
  shows "invariant I (if c then m else m')"
  using assms by simp

lemma invariant_cond:
  assumes "invariant I m" and "invariant I m'"
  shows "invariant I (\<lambda>w. if c w then m w else m' w)"
  using assms unfolding invariant_def by simp

lemma invariant_case_option:
  assumes "invariant I m" and "\<And>x. invariant I (f x)"
  shows "invariant I (case v of None \<Rightarrow> m | Some x \<Rightarrow> f x)"
  using assms by (simp split: option.split)

lemma invariant_exec_stmt: "invariant I (execute s) \<Longrightarrow> invariant I (exec_stmt s)"
  unfolding exec_stmt_def by (intro invariant_bind invariant_return)

lemma invariant_uexec_stmt: "invariant I (uexecute s) \<Longrightarrow> invariant I (uexec_stmt s)"
  unfolding uexec_stmt_def by (intro invariant_bind invariant_return)

lemmas invariant_intros =
  invariant_return invariant_raise invariant_bind invariant_block_Cons invariant_block_Nil
  invariant_for_each invariant_repeat invariant_try_except invariant_try_except_else
  invariant_try_finally invariant_if invariant_cond invariant_case_option invariant_exec_stmt invariant_uexec_stmt

lemma kept_session_execute: "kept_by_session P I \<Longrightarrow> P s \<Longrightarrow> invariant I (execute s)"
  by (simp add: kept_by_session_def)

lemma kept_session_others:
  assumes "kept_by_session P I"
  shows "invariant I commit" "invariant I rollback"
  using assms by (simp_all add: kept_by_session_def)

lemma kept_session: "kept_by_operations P I \<Longrightarrow> kept_by_session P I"
  by (simp add: kept_by_operations_def)

lemma kept_execute: "kept_by_operations P I \<Longrightarrow> P s \<Longrightarrow> invariant I (execute s)"
  by (simp add: kept_by_operations_def kept_by_session_def)

lemma kept_others:
  assumes "kept_by_operations P I"
  shows "invariant I (uexecute s)" "invariant I commit" "invariant I rollback"
    "invariant I (set_autocommit b)" "invariant I prompt" "invariant I uconnect"
    "invariant I urollback" "invariant I uclose"
  using assms by (simp_all add: kept_by_operations_def kept_by_session_def)

lemma kept_session_weaken:
  "kept_by_session P I \<Longrightarrow> (\<And>s. P' s \<Longrightarrow> P s) \<Longrightarrow> kept_by_session P' I"
  by (simp add: kept_by_session_def)

lemma kept_weaken:
  "kept_by_operations P I \<Longrightarrow> (\<And>s. P' s \<Longrightarrow> P s) \<Longrightarrow> kept_by_operations P' I"
  by (simp add: kept_by_operations_def kept_by_session_def)

lemma invariant_setup_demo:
  assumes "kept_by_operations (\<lambda>s. \<not> is_teardown_stmt s) I"
  shows "invariant I setup_demo"
  unfolding setup_demo_def
  by (intro invariant_intros kept_execute[OF assms] kept_others[OF assms]; simp)

lemma invariant_teardown_demo:
  assumes "kept_by_session is_teardown_stmt I"
  shows "invariant I teardown_demo"
  unfolding teardown_demo_def teardown_revokes_def teardown_drops_def teardown_extensions_def
  by (intro invariant_intros kept_session_execute[OF assms] kept_session_others[OF assms]; simp)

lemma invariant_demo_pg_trgm:
  assumes "kept_by_operations (\<lambda>s. \<not> is_teardown_stmt s) I"
  shows "invariant I (demo_pg_trgm i)"
  unfolding demo_pg_trgm_def intro_pg_trgm_def init_pg_trgm_def create_addr_table_def
    load_addr_table_def copy_addr_data_def create_addr_btree_index_def test_addr_btree_index_def
    create_addr_gin_index_def test_addr_gin_index_def
  by (intro invariant_intros kept_execute[OF assms] kept_others[OF assms]; simp)

lemma invariant_demo_pg_stat_statements:
  assumes "kept_by_operations (\<lambda>s. \<not> is_teardown_stmt s) I"
  shows "invariant I (demo_pg_stat_statements i)"
  unfolding demo_pg_stat_statements_def intro_pg_stat_statements_def demo_pss_table_def
    demo_unprivileged_user_def create_unpriveleged_user_def
  by (intro invariant_intros kept_execute[OF assms] kept_others[OF assms]; simp)

lemma invariant_validate_demo:
  assumes "kept_by_operations (\<lambda>s. \<not> is_teardown_stmt s) I"
    and "\<And>x. invariant I (EXTENSIONS_add x)"
  shows "invariant I validate_demo"
  unfolding validate_demo_def check_preload_library_def check_existing_extensions_def
  by (intro invariant_intros kept_execute[OF assms(1)] kept_others[OF assms(1)] assms(2); simp)

lemma invariant_run_demo_try:
  assumes "kept_by_operations (\<lambda>s. \<not> is_teardown_stmt s) I"
    and "\<And>x. invariant I (EXTENSIONS_add x)"
  shows "invariant I (run_demo_try i b)"
  unfolding run_demo_try_def
  by (intro invariant_intros invariant_validate_demo invariant_setup_demo invariant_demo_pg_trgm
      invariant_demo_pg_stat_statements assms)

lemma trace_execute [simp]: "trace (snd (execute s w)) = trace w @ [Exec s]"
  by (simp add: execute_def record_event_def Let_def split: option.split)

lemma trace_uexecute [simp]: "trace (snd (uexecute s w)) = trace w @ [UExec s]"
  by (simp add: uexecute_def record_event_def Let_def)

lemma trace_commit [simp]: "trace (snd (commit w)) = trace w @ [Commit]"
  by (simp add: commit_def record_event_def Let_def split: txn_status.split)

lemma trace_rollback [simp]: "trace (snd (rollback w)) = trace w @ [Rollback]"
  by (simp add: rollback_def record_event_def)

lemma trace_set_autocommit [simp]:
  "trace (snd (set_autocommit b w)) = trace w @ [SetAutocommit b]"
  by (simp add: set_autocommit_def record_event_def Let_def)

lemma trace_prompt [simp]: "trace (snd (prompt w)) = trace w @ [Prompt]"
  by (simp add: prompt_def record_event_def Let_def)

lemma trace_connect [simp]: "trace (snd (connect w)) = trace w @ [Connect]"
  by (simp add: connect_def record_event_def Let_def)

lemma trace_uconnect [simp]: "trace (snd (uconnect w)) = trace w @ [UConnect]"
  by (simp add: uconnect_def record_event_def Let_def)

lemma trace_urollback [simp]: "trace (snd (urollback w)) = trace w @ [URollback]"
  by (simp add: urollback_def record_event_def)

lemma trace_uclose [simp]: "trace (snd (uclose w)) = trace w @ [UClose]"
  by (simp add: uclose_def record_event_def)

lemma trace_EXTENSIONS_add [simp]: "trace (snd (EXTENSIONS_add x w)) = trace w"
  by (simp add: EXTENSIONS_add_def)

lemma kept_session_trace:
  assumes step: "\<And>t ev. Q t \<Longrightarrow> A ev \<Longrightarrow> Q (t @ [ev])"
    and "\<And>s. P s \<Longrightarrow> A (Exec s)" and "A Commit" and "A Rollback"
  shows "kept_by_session P (\<lambda>w. Q (trace w))"
  unfolding kept_by_session_def invariant_def using assms by simp

lemma kept_trace:
  assumes step: "\<And>t ev. Q t \<Longrightarrow> A ev \<Longrightarrow> Q (t @ [ev])"
    and "\<And>s. P s \<Longrightarrow> A (Exec s)" and "\<And>s. A (UExec s)" and "A Commit" and "A Rollback"
    and "\<And>b. A (SetAutocommit b)" and "A Prompt" and "A UConnect" and "A URollback"
    and "A UClose"
  shows "kept_by_operations P (\<lambda>w. Q (trace w))"
  unfolding kept_by_operations_def kept_by_session_def invariant_def using assms by simp

lemma faults_operations [simp]:
  "faults (snd (execute s w)) = faults w" "faults (snd (uexecute s w)) = faults w"
  "faults (snd (commit w)) = faults w" "faults (snd (rollback w)) = faults w"
  "faults (snd (set_autocommit b w)) = faults w" "faults (snd (prompt w)) = faults w"
  "faults (snd (connect w)) = faults w" "faults (snd (uconnect w)) = faults w"
  "faults (snd (urollback w)) = faults w" "faults (snd (uclose w)) = faults w"
  "faults (snd (EXTENSIONS_add x w)) = faults w"
  by (simp_all add: execute_def uexecute_def commit_def rollback_def set_autocommit_def
      prompt_def connect_def uconnect_def urollback_def uclose_def EXTENSIONS_add_def
      record_event_def Let_def split: option.split txn_status.split)

lemma EXTENSIONS_operations [simp]:
  "EXTENSIONS (snd (execute s w)) = EXTENSIONS w" "EXTENSIONS (snd (uexecute s w)) = EXTENSIONS w"
  "EXTENSIONS (snd (commit w)) = EXTENSIONS w" "EXTENSIONS (snd (rollback w)) = EXTENSIONS w"
  "EXTENSIONS (snd (set_autocommit b w)) = EXTENSIONS w" "EXTENSIONS (snd (prompt w)) = EXTENSIONS w"
  "EXTENSIONS (snd (connect w)) = EXTENSIONS w" "EXTENSIONS (snd (uconnect w)) = EXTENSIONS w"
  "EXTENSIONS (snd (urollback w)) = EXTENSIONS w" "EXTENSIONS (snd (uclose w)) = EXTENSIONS w"
  by (simp_all add: execute_def uexecute_def commit_def rollback_def set_autocommit_def
      prompt_def connect_def uconnect_def urollback_def uclose_def
      record_event_def Let_def split: option.split txn_status.split)

lemma kept_frame:
  "kept_by_operations P (\<lambda>w. faults w = f \<and> EXTENSIONS w = X)"
  unfolding kept_by_operations_def kept_by_session_def invariant_def by simp

section \<open>Composition of programs\<close>

lemma bind_Inr: "m w = (Inr a, w1) \<Longrightarrow> bind m f w = f a w1"
  by (simp add: bind_def)

lemma bind_Inl: "m w = (Inl e, w1) \<Longrightarrow> bind m f w = (Inl e, w1)"
  by (simp add: bind_def)

lemma bind_assoc: "bind (bind m f) g = bind m (\<lambda>a. bind (f a) g)"
  by (rule ext) (simp add: bind_def split: prod.split sum.split)

lemma bind_return: "bind (return a) f = f a"
  by (rule ext) (simp add: bind_def return_def)

lemma bind_cases:
  obtains (raised) e where "fst (m w) = Inl e" and "bind m f w = (Inl e, snd (m w))"
  | (returned) a where "fst (m w) = Inr a" and "bind m f w = f a (snd (m w))"
  by (cases "m w"; cases "fst (m w)") (auto simp: bind_def)

lemma block_append: "block (ms @ ns) = bind (block ms) (\<lambda>_. block ns)"
  by (induction ms) (simp_all add: bind_return bind_assoc)

lemma exec_stmt_cases:
  obtains (raised) "exec_stmt s w = (Inl (DbError s), snd (execute s w))"
  | (returned) "exec_stmt s w = (Inr (), snd (execute s w))"
  by (cases "execute s w"; cases "fst (execute s w)")
     (auto simp: exec_stmt_def bind_def return_def execute_def Let_def split: if_splits option.splits)

lemma invariantD: "invariant I m \<Longrightarrow> I w \<Longrightarrow> I (snd (m w))"
  by (simp add: invariant_def)

text \<open>The guarded revokes never raise.\<close>

lemma guarded_revoke_returns: "fst (try_except (exec_stmt s) (\<lambda>e. rollback) w) = Inr ()"
  by (cases rule: exec_stmt_cases[of s w]) (simp_all add: try_except_def rollback_def)

lemma teardown_revokes_returns: "fst (teardown_revokes w) = Inr ()"
proof -
  have step: "fst (bind (try_except (exec_stmt s) (\<lambda>e. rollback)) f w) =
      fst (f () (snd (try_except (exec_stmt s) (\<lambda>e. rollback) w)))" for s f w
    using guarded_revoke_returns[of s w]
    by (cases "try_except (exec_stmt s) (\<lambda>e. rollback) w") (simp add: bind_def)
  show ?thesis
    by (simp add: teardown_revokes_def step return_def)
qed

lemma kept_count:
  "kept_by_operations (\<lambda>s. Exec s \<noteq> x) (\<lambda>w. count_list (trace w) x = n)"
  if "is_primary x" "\<forall>b. x \<noteq> SetAutocommit b" "x \<noteq> Commit" "x \<noteq> Rollback"
  using that
  by (intro kept_trace[where A = "\<lambda>ev. ev \<noteq> x" and Q = "\<lambda>t. count_list t x = n"]) auto

lemma teardown_demo_unfold:
  "teardown_demo w =
     bind (exec_stmt DropSchema)
       (\<lambda>_. bind (block [exec_stmt DropRole, commit]) (\<lambda>_. block [teardown_extensions]))
       (snd (teardown_revokes w))"
proof -
  have "teardown_revokes w = (Inr (), snd (teardown_revokes w))"
    using teardown_revokes_returns[of w] by (cases "teardown_revokes w") simp
  then show ?thesis
    by (simp add: teardown_demo_def teardown_drops_def bind_Inr bind_assoc)
qed

lemma invariant_teardown_revokes:
  assumes "kept_by_session (\<lambda>s. s \<in> {RevokeFunction, RevokeSchema, RevokeDatabase}) I"
  shows "invariant I teardown_revokes"
  unfolding teardown_revokes_def
  by (intro invariant_intros kept_session_execute[OF assms] kept_session_others[OF assms]; simp)

lemma invariant_teardown_rest:
  assumes "kept_by_session (\<lambda>s. is_teardown_stmt s \<and> s \<noteq> DropSchema) I"
  shows "invariant I (bind (block [exec_stmt DropRole, commit]) (\<lambda>_. block [teardown_extensions]))"
  unfolding teardown_extensions_def
  by (intro invariant_intros kept_session_execute[OF assms] kept_session_others[OF assms]; simp)

lemma teardown_demo_drops_schema_once:
  "count_list (trace (snd (teardown_demo w))) (Exec DropSchema) =
     Suc (count_list (trace w) (Exec DropSchema))"
proof -
  let ?x = "Exec DropSchema"
  let ?w1 = "snd (teardown_revokes w)"
  let ?w2 = "snd (execute DropSchema ?w1)"
  let ?rest = "bind (block [exec_stmt DropRole, commit]) (\<lambda>_. block [teardown_extensions])"
  have kept: "kept_by_session (\<lambda>s. Exec s \<noteq> ?x) (\<lambda>w. count_list (trace w) ?x = n)" for n
    by (rule kept_session[OF kept_count]) simp_all
  have "invariant (\<lambda>w. count_list (trace w) ?x = n) teardown_revokes" for n
    by (rule invariant_teardown_revokes) (rule kept_session_weaken[OF kept], auto)
  then have w1: "count_list (trace ?w1) ?x = count_list (trace w) ?x"
    by (auto dest: invariantD)
  then have w2: "count_list (trace ?w2) ?x = Suc (count_list (trace w) ?x)"
    by simp
  have "invariant (\<lambda>w. count_list (trace w) ?x = n) ?rest" for n
    by (rule invariant_teardown_rest) (rule kept_session_weaken[OF kept], auto)
  then have rest: "count_list (trace (snd (?rest ?w2))) ?x = Suc (count_list (trace w) ?x)"
    by (rule invariantD) (rule w2)
  show ?thesis
    using w1 rest
    by (cases rule: exec_stmt_cases[of DropSchema ?w1])
       (simp_all add: teardown_demo_unfold bind_Inl bind_Inr)
qed

text \<open>Every program only appends to the trace.\<close>

lemma kept_events:
  assumes "\<And>s. P s \<Longrightarrow> A (Exec s)" and "\<And>s. A (UExec s)" and "A Commit" and "A Rollback"
    and "\<And>b. A (SetAutocommit b)" and "A Prompt" and "A UConnect" and "A URollback"
    and "A UClose"
  shows "kept_by_operations P
     (\<lambda>w. prefix t0 (trace w) \<and> list_all A (drop (length t0) (trace w)))"
  by (rule kept_trace[where A = A]) (use assms in \<open>auto simp: prefix_def\<close>)

lemma kept_session_events:
  assumes "\<And>s. P s \<Longrightarrow> A (Exec s)" and "A Commit" and "A Rollback"
  shows "kept_by_session P
     (\<lambda>w. prefix t0 (trace w) \<and> list_all A (drop (length t0) (trace w)))"
  by (rule kept_session_trace[where A = A]) (use assms in \<open>auto simp: prefix_def\<close>)

lemma issuedI:
  assumes "invariant (\<lambda>w'. prefix (trace w) (trace w') \<and> list_all A (drop (length (trace w)) (trace w'))) m"
  shows "trace (snd (m w)) = trace w @ issued m w \<and> list_all A (issued m w)"
proof -
  have "prefix (trace w) (trace (snd (m w))) \<and> list_all A (drop (length (trace w)) (trace (snd (m w))))"
    using assms by (auto dest: invariantD)
  then show ?thesis
    by (auto simp: issued_def prefix_def)
qed

lemma invariant_with_connect:
  assumes "invariant I connect" and "invariant I body" and "invariant I commit"
    and "invariant I rollback"
  shows "invariant I (with_connect body)"
  unfolding with_connect_def
  by (rule invariant_bind[OF assms(1)])
     (use assms(2-4) in \<open>auto simp: invariant_def split: prod.splits sum.splits\<close>)

lemma invariant_run_demo:
  assumes "kept_by_operations (\<lambda>s. True) I" and "\<And>x. invariant I (EXTENSIONS_add x)"
    and "invariant I connect"
  shows "invariant I (run_demo i t b)"
proof -
  have demo: "kept_by_operations (\<lambda>s. \<not> is_teardown_stmt s) I"
    and td: "kept_by_operations is_teardown_stmt I"
    using assms(1) by (auto intro: kept_weaken)
  show ?thesis
    unfolding run_demo_def run_demo_finally_def
    by (intro invariant_with_connect invariant_try_finally invariant_run_demo_try
        invariant_teardown_demo invariant_if invariant_return demo kept_session[OF td] assms
        kept_others[OF td])
qed

lemma invariant_prefix_connect:
  "invariant (\<lambda>w. prefix t0 (trace w) \<and> list_all A (drop (length t0) (trace w))) connect"
  if "A Connect"
  using that by (auto simp: invariant_def prefix_def)

lemma invariant_prefix_EXTENSIONS_add:
  "invariant (\<lambda>w. prefix t0 (trace w) \<and> list_all A (drop (length t0) (trace w)))
     (EXTENSIONS_add x)"
  by (simp add: invariant_def)

lemma trace_run_demo: "trace (snd (run_demo i t b w)) = trace w @ issued (run_demo i t b) w"
  by (rule issuedI[where A = "\<lambda>ev. True", THEN conjunct1])
     (intro invariant_run_demo kept_events invariant_prefix_connect
        invariant_prefix_EXTENSIONS_add; simp)

lemma trace_teardown_demo:
  "trace (snd (teardown_demo w)) = trace w @ issued teardown_demo w \<and>
   list_all is_teardown_event (issued teardown_demo w)"
  by (rule issuedI) (intro invariant_teardown_demo kept_session_events; simp)

lemma with_connect_unfold:
  "fst (connect w) = Inr () \<Longrightarrow>
   with_connect body w =
     (case body (snd (connect w)) of
        (Inl e, w') \<Rightarrow> (Inl e, snd (rollback w'))
      | (Inr u, w') \<Rightarrow> commit w')"
  by (cases "connect w") (simp add: with_connect_def bind_def)

lemma check_preload_library_trace [simp]:
  "trace (snd (check_preload_library l w)) = trace w @ [Exec SelectPreload]"
  by (cases "execute SelectPreload w")
     (auto simp: check_preload_library_def bind_def return_def dest: arg_cong[where f = "\<lambda>p. trace (snd p)"] split: sum.splits option.splits)

lemma teardown_demo_issues_drop_schema:
  "count_list (issued teardown_demo w) (Exec DropSchema) = 1"
  using teardown_demo_drops_schema_once[of w] trace_teardown_demo[of w] by simp

lemma run_demo_try_inactive:
  assumes "fst (check_preload_library ''pg_stat_statements'' w) = Inr False"
  shows "run_demo_try i False w = (Inr (), snd (check_preload_library ''pg_stat_statements'' w))"
  using assms
  by (cases "check_preload_library ''pg_stat_statements'' w")
     (simp add: run_demo_try_def validate_demo_def bind_def return_def)

section \<open>The run as a whole\<close>

lemma run_demo_unfold:
  assumes "fst (connect w) = Inr ()"
  shows "run_demo i t b w =
     (let w2 = snd (run_demo_try i b (snd (connect w)));
          r = fst (run_demo_try i b (snd (connect w)));
          w3 = snd (run_demo_finally t b w2)
      in case fst (run_demo_finally t b w2) of
           Inl e \<Rightarrow> (Inl e, snd (rollback w3))
         | Inr u \<Rightarrow> (case r of Inl e \<Rightarrow> (Inl e, snd (rollback w3)) | Inr u \<Rightarrow> commit w3))"
  by (auto simp: run_demo_def with_connect_unfold[OF assms] try_finally_def Let_def
      split: prod.splits sum.splits)

lemma trace_run_demo_finally:
  "trace (snd (run_demo_finally t b w)) =
     trace w @ (if t \<or> b then issued teardown_demo w else [])"
  using trace_teardown_demo[of w] by (simp add: run_demo_finally_def return_def)

lemma run_demo_trace:
  assumes "fst (connect w) = Inr ()"
  shows "\<exists>ex \<in> {Commit, Rollback}.
     trace (snd (run_demo i t b w)) =
       trace (snd (run_demo_try i b (snd (connect w)))) @
       (if t \<or> b then issued teardown_demo (snd (run_demo_try i b (snd (connect w)))) else []) @
       [ex]"
  by (simp add: run_demo_unfold[OF assms] Let_def trace_run_demo_finally
      split: sum.splits)

section \<open>Validation gating\<close>

text \<open>
  Claim C1, as amended. For every run in which the connection is made, validation finds
  the capability inactive (\<^verbatim>\<open>check_preload_library\<close> returns false) and teardown-only
  was not requested: the run records nothing but the connection, the query of the
  setting, events of teardown and the closing commit or rollback, so no statement of
  setup or of a demo is issued; and teardown runs (its namespace drop is issued) exactly
  when the \<^verbatim>\<open>teardown\<close> flag is set, which is the default of the command line.
\<close>

theorem validation_gating:
  assumes "fst (connect w) = Inr ()"
    and "fst (check_preload_library ''pg_stat_statements'' (snd (connect w))) = Inr False"
  shows "list_all is_gated_event (issued (run_demo init_demo teardown False) w) \<and>
         (Exec DropSchema \<in> set (issued (run_demo init_demo teardown False) w) \<longleftrightarrow> teardown)"
proof -
  let ?w1 = "snd (connect w)"
  let ?wc = "snd (check_preload_library ''pg_stat_statements'' ?w1)"
  have suite: "run_demo_try init_demo False ?w1 = (Inr (), ?wc)"
    by (rule run_demo_try_inactive[OF assms(2)])
  obtain ex where ex: "ex = Commit \<or> ex = Rollback"
    and tr: "trace (snd (run_demo init_demo teardown False w)) =
      trace ?wc @ (if teardown then issued teardown_demo ?wc else []) @ [ex]"
    using run_demo_trace[OF assms(1), of init_demo teardown False] by (auto simp: suite)
  have iss: "issued (run_demo init_demo teardown False) w =
      [Connect, Exec SelectPreload] @ (if teardown then issued teardown_demo ?wc else []) @ [ex]"
    by (simp add: issued_def tr)
  have td: "list_all is_teardown_event (issued teardown_demo ?wc)"
    using trace_teardown_demo by blast
  have gated: "is_gated_event ev" if "is_teardown_event ev" for ev
    using that by (cases ev) auto
  have "count_list (issued teardown_demo ?wc) (Exec DropSchema) = 1"
    by (rule teardown_demo_issues_drop_schema)
  then have mem: "Exec DropSchema \<in> set (issued teardown_demo ?wc)"
    by (metis count_list_0_iff zero_neq_one)
  show ?thesis
    using ex td mem by (auto simp: iss list_all_iff gated)
qed

text \<open>
  The theorem at a server whose setting names another library, with
  \<^verbatim>\<open>--no-teardown\<close>.
\<close>

theorem validation_gating_witness:
  "fst (connect (process_start (stock_db\<lparr>preload := Some ''pg_trgm''\<rparr>) (\<lambda>n. False))) = Inr () \<and>
   issued (run_demo True False False) (process_start (stock_db\<lparr>preload := Some ''pg_trgm''\<rparr>) (\<lambda>n. False))
     = [Connect, Exec SelectPreload, Commit] \<and>
   Exec DropSchema \<notin> set (issued (run_demo True False False)
      (process_start (stock_db\<lparr>preload := Some ''pg_trgm''\<rparr>) (\<lambda>n. False)))"
proof -
  let ?w = "process_start (stock_db\<lparr>preload := Some ''pg_trgm''\<rparr>) (\<lambda>n. False)"
  have c: "fst (connect ?w) = Inr ()"
    by code_simp
  have p: "fst (check_preload_library ''pg_stat_statements'' (snd (connect ?w))) = Inr False"
    by code_simp
  have "issued (run_demo True False False) ?w = [Connect, Exec SelectPreload, Commit]"
    by code_simp
  with validation_gating[OF c p, of True False] c show ?thesis
    by simp
qed

text \<open>
  Claim C1 as stated says that teardown does not run here. With the default flags and the
  capability inactive the \<^verbatim>\<open>finally\<close> suite of \<^verbatim>\<open>run_demo\<close> runs the whole of
  teardown.
\<close>

theorem validation_gating_counterexample:
  "fst (check_preload_library ''pg_stat_statements''
      (snd (connect (process_start (stock_db\<lparr>preload := Some ''pg_trgm''\<rparr>) (\<lambda>n. False))))) = Inr False \<and>
   issued (run_demo True True False) (process_start (stock_db\<lparr>preload := Some ''pg_trgm''\<rparr>) (\<lambda>n. False))
     = [Connect, Exec SelectPreload, Exec RevokeFunction, Rollback, Exec RevokeSchema, Rollback,
        Exec RevokeDatabase, Rollback, Exec DropSchema, Exec DropRole, Commit,
        Exec SelectDemoExtensions, Commit, Commit]"
  by code_simp

section \<open>Teardown after a failed demo\<close>

lemma count_run_demo_try:
  "count_list (trace (snd (run_demo_try i b w))) (Exec DropSchema) =
     count_list (trace w) (Exec DropSchema)"
proof -
  have "invariant (\<lambda>w'. count_list (trace w') (Exec DropSchema) =
      count_list (trace w) (Exec DropSchema)) (run_demo_try i b)"
    by (rule invariant_run_demo_try)
       (rule kept_weaken[OF kept_count], auto simp: invariant_def)
  then show ?thesis
    by (rule invariantD) simp
qed

lemma run_demo_drops_schema:
  assumes "fst (connect w) = Inr ()"
  shows "count_list (issued (run_demo i t b) w) (Exec DropSchema) = (if t \<or> b then 1 else 0)"
proof -
  let ?w2 = "snd (run_demo_try i b (snd (connect w)))"
  obtain ex where ex: "ex = Commit \<or> ex = Rollback"
    and tr: "trace (snd (run_demo i t b w)) =
      trace ?w2 @ (if t \<or> b then issued teardown_demo ?w2 else []) @ [ex]"
    using run_demo_trace[OF assms, of i t b] by auto
  have "count_list (trace (snd (run_demo i t b w))) (Exec DropSchema) =
      count_list (trace w) (Exec DropSchema) + (if t \<or> b then 1 else 0)"
    using ex by (auto simp: tr count_run_demo_try teardown_demo_issues_drop_schema)
  then show ?thesis
    by (simp add: trace_run_demo[of i t b w])
qed

lemma run_demo_try_demo_raises:
  assumes "validate_demo w1 = (Inr True, w2)"
    and "(if i then setup_demo else return ()) w2 = (Inr (), w3)"
    and "block [demo_pg_trgm i, demo_pg_stat_statements i] w3 = (Inl e, w4)"
  shows "run_demo_try i False w1 = (Inl e, w4)"
  using assms by (cases i) (simp_all add: run_demo_try_def bind_def)

text \<open>
  Claim C4. In a run with \<^verbatim>\<open>teardown=True\<close> that passes validation and setup and in
  which a demo phase (\<^verbatim>\<open>demo_pg_trgm\<close> or \<^verbatim>\<open>demo_pg_stat_statements\<close>) raises \<open>e\<close>,
  teardown runs in the state the demo left: the run issues the namespace drop exactly
  once, after the events of the demo and before the rollback that closes the connection
  context; the run then ends with an exception, which is \<open>e\<close> itself unless teardown
  raises one of its own.
\<close>

theorem teardown_runs_after_demo_failure:
  assumes "fst (connect w) = Inr ()"
    and "validate_demo (snd (connect w)) = (Inr True, w2)"
    and "(if init_demo then setup_demo else return ()) w2 = (Inr (), w3)"
    and "block [demo_pg_trgm init_demo, demo_pg_stat_statements init_demo] w3 = (Inl e, w4)"
  shows "count_list (issued (run_demo init_demo True False) w) (Exec DropSchema) = 1 \<and>
         trace (snd (run_demo init_demo True False w)) =
           trace w4 @ issued teardown_demo w4 @ [Rollback] \<and>
         (\<exists>e'. fst (run_demo init_demo True False w) = Inl e') \<and>
         (fst (teardown_demo w4) = Inr () \<longrightarrow> fst (run_demo init_demo True False w) = Inl e)"
proof -
  have suite: "run_demo_try init_demo False (snd (connect w)) = (Inl e, w4)"
    by (rule run_demo_try_demo_raises[OF assms(2-4)])
  have "count_list (issued (run_demo init_demo True False) w) (Exec DropSchema) = 1"
    using run_demo_drops_schema[OF assms(1), of init_demo True False] by simp
  moreover have "trace (snd (run_demo init_demo True False w)) =
      trace w4 @ issued teardown_demo w4 @ [Rollback]"
    using trace_teardown_demo[of w4]
    by (cases "fst (teardown_demo w4)")
       (simp_all add: run_demo_unfold[OF assms(1)] suite run_demo_finally_def Let_def)
  moreover have "\<exists>e'. fst (run_demo init_demo True False w) = Inl e'"
    by (cases "fst (run_demo_finally True False w4)")
       (simp_all add: run_demo_unfold[OF assms(1)] suite Let_def)
  moreover have "fst (teardown_demo w4) = Inr () \<longrightarrow> fst (run_demo init_demo True False w) = Inl e"
    by (simp add: run_demo_unfold[OF assms(1)] suite run_demo_finally_def Let_def)
  ultimately show ?thesis
    by blast
qed

text \<open>
  The theorem at a run on the stock server in which the user interrupts the first prompt
  of \<^verbatim>\<open>demo_pg_trgm\<close>.
\<close>

theorem teardown_runs_after_demo_failure_witness:
  "count_list (issued (run_demo True True False) (process_start stock_db (\<lambda>n. n = 9)))
     (Exec DropSchema) = 1 \<and>
   fst (run_demo True True False (process_start stock_db (\<lambda>n. n = 9))) = Inl KeyboardInterrupt"
proof -
  let ?w = "process_start stock_db (\<lambda>n. n = 9)"
  let ?w2 = "snd (validate_demo (snd (connect ?w)))"
  let ?w3 = "snd (setup_demo ?w2)"
  let ?w4 = "snd (block [demo_pg_trgm True, demo_pg_stat_statements True] ?w3)"
  have c: "fst (connect ?w) = Inr ()"
    by code_simp
  have "fst (validate_demo (snd (connect ?w))) = Inr True"
    by code_simp
  then have v: "validate_demo (snd (connect ?w)) = (Inr True, ?w2)"
    by (simp add: prod_eq_iff)
  have "fst (setup_demo ?w2) = Inr ()"
    by code_simp
  then have s: "(if True then setup_demo else return ()) ?w2 = (Inr (), ?w3)"
    by (simp add: prod_eq_iff)
  have "fst (block [demo_pg_trgm True, demo_pg_stat_statements True] ?w3) = Inl KeyboardInterrupt"
    by code_simp
  then have d: "block [demo_pg_trgm True, demo_pg_stat_statements True] ?w3 =
      (Inl KeyboardInterrupt, ?w4)"
    by (simp add: prod_eq_iff)
  have t: "fst (teardown_demo ?w4) = Inr ()"
    by code_simp
  from teardown_runs_after_demo_failure[OF c v s d] t show ?thesis
    by blast
qed

section \<open>Unfolding a run\<close>

lemmas run_simps =
  bind_def return_def raise_def try_except_def try_except_else_def try_finally_def
  exec_stmt_def execute_def commit_def rollback_def record_event_def faulted_def Let_def

section \<open>Validation\<close>

lemma for_each_EXTENSIONS_add:
  "for_each rs EXTENSIONS_add w = (Inr (), w\<lparr>EXTENSIONS := EXTENSIONS w \<union> set rs\<rparr>)"
  by (induction rs arbitrary: w) (simp_all add: return_def bind_def EXTENSIONS_add_def)

lemma connect_returns:
  assumes "fst (connect w) = Inr ()"
  shows "snd (connect w) =
     w\<lparr>trace := trace w @ [Connect], db_working := db_committed w, txn := Idle,
       autocommit := False\<rparr>"
  using assms by (simp add: connect_def record_event_def Let_def split: if_splits)

lemma validate_demo_True:
  assumes "fst (validate_demo w) = Inr True" and "\<not> autocommit w"
  shows "snd (validate_demo w) =
     w\<lparr>trace := trace w @ [Exec SelectPreload, Exec SelectExtensions, Rollback],
       EXTENSIONS := EXTENSIONS w \<union> set (exts (db_working w)),
       db_working := db_committed w, txn := Idle\<rparr>"
  using assms
  by (auto simp: validate_demo_def check_preload_library_def check_existing_extensions_def
      for_each_EXTENSIONS_add run_simps
      split: if_splits option.splits prod.splits sum.splits)

lemma setup_demo_schema_exists:
  assumes "schema (db_working w)"
  shows "setup_demo w =
     (Inl (DbError CreateSchema),
      w\<lparr>trace := trace w @ [Exec CreateSchema, Rollback], db_working := db_committed w,
        txn := Idle\<rparr>)"
  using assms by (simp add: setup_demo_def run_simps)

text \<open>
  Claim C9. Setup is not idempotent with respect to the namespace. \<^verbatim>\<open>setup_demo\<close>
  issues \<^verbatim>\<open>create schema __demo\<close> first and without a guard, so wherever the namespace
  exists it raises the error of that statement and rolls back, having issued nothing
  else. In a run with \<^verbatim>\<open>init_demo\<close> set that passes validation on a database that
  holds the namespace, the suite under \<^verbatim>\<open>try\<close> therefore records the two queries of
  validation with their rollback, the schema creation and its rollback, and no statement
  of a demo; the run ends with an exception.
\<close>

theorem setup_demo_not_idempotent:
  "(schema (db_working w) \<longrightarrow>
      fst (setup_demo w) = Inl (DbError CreateSchema) \<and>
      issued setup_demo w = [Exec CreateSchema, Rollback] \<and>
      db_working (snd (setup_demo w)) = db_committed w \<and>
      db_committed (snd (setup_demo w)) = db_committed w \<and>
      txn (snd (setup_demo w)) = Idle) \<and>
   (fst (connect w) = Inr () \<and> fst (validate_demo (snd (connect w))) = Inr True \<and>
    schema (db_committed w) \<longrightarrow>
      fst (run_demo_try True False (snd (connect w))) = Inl (DbError CreateSchema) \<and>
      issued (run_demo_try True False) (snd (connect w)) =
        [Exec SelectPreload, Exec SelectExtensions, Rollback, Exec CreateSchema, Rollback] \<and>
      (\<exists>e. fst (run_demo True teardown False w) = Inl e))"
proof (intro conjI impI)
  assume "schema (db_working w)"
  note r = setup_demo_schema_exists[OF this]
  show "fst (setup_demo w) = Inl (DbError CreateSchema)"
    and "issued setup_demo w = [Exec CreateSchema, Rollback]"
    and "db_working (snd (setup_demo w)) = db_committed w"
    and "db_committed (snd (setup_demo w)) = db_committed w"
    and "txn (snd (setup_demo w)) = Idle"
    by (simp_all add: r issued_def)
next
  assume a: "fst (connect w) = Inr () \<and> fst (validate_demo (snd (connect w))) = Inr True \<and>
    schema (db_committed w)"
  let ?w1 = "snd (connect w)"
  have w1: "?w1 = w\<lparr>trace := trace w @ [Connect], db_working := db_committed w, txn := Idle,
       autocommit := False\<rparr>"
    using a by (simp add: connect_returns)
  obtain w2 where v: "validate_demo ?w1 = (Inr True, w2)"
    using a by (cases "validate_demo ?w1") simp
  have "snd (validate_demo ?w1) =
      ?w1\<lparr>trace := trace ?w1 @ [Exec SelectPreload, Exec SelectExtensions, Rollback],
       EXTENSIONS := EXTENSIONS ?w1 \<union> set (exts (db_working ?w1)),
       db_working := db_committed ?w1, txn := Idle\<rparr>"
    by (rule validate_demo_True) (use a w1 in simp_all)
  then have w2: "w2 = ?w1\<lparr>trace := trace ?w1 @ [Exec SelectPreload, Exec SelectExtensions, Rollback],
       EXTENSIONS := EXTENSIONS ?w1 \<union> set (exts (db_working ?w1)),
       db_working := db_committed ?w1, txn := Idle\<rparr>"
    by (simp add: v)
  have "schema (db_working w2)"
    using a by (simp add: w2 w1)
  note s = setup_demo_schema_exists[OF this]
  have suite: "run_demo_try True False ?w1 = (Inl (DbError CreateSchema), snd (setup_demo w2))"
    by (simp add: run_demo_try_def bind_def v s)
  show "fst (run_demo_try True False ?w1) = Inl (DbError CreateSchema)"
    by (simp add: suite)
  show "issued (run_demo_try True False) ?w1 =
      [Exec SelectPreload, Exec SelectExtensions, Rollback, Exec CreateSchema, Rollback]"
    by (simp add: issued_def suite s) (simp add: w2)
  show "\<exists>e. fst (run_demo True teardown False w) = Inl e"
    using a
    by (cases "fst (run_demo_finally teardown False (snd (setup_demo w2)))")
       (simp_all add: run_demo_unfold suite Let_def)
qed

text \<open>The theorem at a stock server that already holds the namespace.\<close>

theorem setup_demo_not_idempotent_witness:
  "schema (db_working (process_start (stock_db\<lparr>schema := True\<rparr>) (\<lambda>n. False))) \<and>
   fst (setup_demo (process_start (stock_db\<lparr>schema := True\<rparr>) (\<lambda>n. False))) =
     Inl (DbError CreateSchema) \<and>
   fst (validate_demo (snd (connect (process_start (stock_db\<lparr>schema := True\<rparr>) (\<lambda>n. False))))) =
     Inr True \<and>
   issued (run_demo_try True False)
     (snd (connect (process_start (stock_db\<lparr>schema := True\<rparr>) (\<lambda>n. False)))) =
     [Exec SelectPreload, Exec SelectExtensions, Rollback, Exec CreateSchema, Rollback]"
proof -
  let ?w = "process_start (stock_db\<lparr>schema := True\<rparr>) (\<lambda>n. False)"
  have h1: "schema (db_working ?w)"
    by (simp add: process_start_def)
  have h2: "fst (connect ?w) = Inr ()"
    by code_simp
  have h3: "fst (validate_demo (snd (connect ?w))) = Inr True"
    by code_simp
  have h4: "schema (db_committed ?w)"
    by (simp add: process_start_def)
  from setup_demo_not_idempotent[of ?w] h1 h2 h3 h4 show ?thesis
    by blast
qed

section \<open>The guarded revokes of teardown\<close>

lemma raises_only_return: "raises_only E (return a)"
  by (simp add: raises_only_def return_def)

lemma raises_only_bind:
  assumes "raises_only E m" and "\<And>a. raises_only E (f a)"
  shows "raises_only E (bind m f)"
  using assms unfolding raises_only_def bind_def
  by (auto split: prod.splits sum.splits) (metis fst_conv)+

lemma raises_only_block_Cons:
  "raises_only E m \<Longrightarrow> raises_only E (block ms) \<Longrightarrow> raises_only E (block (m # ms))"
  by (simp add: raises_only_bind)

lemma raises_only_block_Nil: "raises_only E (block [])"
  by (simp add: raises_only_return)

lemma raises_only_for_each:
  assumes "\<And>x. raises_only E (f x)"
  shows "raises_only E (for_each xs f)"
  using assms by (induction xs) (auto intro: raises_only_return raises_only_bind)

lemma raises_only_cond:
  assumes "raises_only E m" and "raises_only E m'"
  shows "raises_only E (\<lambda>w. if c w then m w else m' w)"
  using assms unfolding raises_only_def by simp

lemma raises_only_execute: "E (DbError s) \<Longrightarrow> raises_only E (execute s)"
  by (auto simp: raises_only_def execute_def Let_def split: if_splits option.splits)

lemma raises_only_exec_stmt: "E (DbError s) \<Longrightarrow> raises_only E (exec_stmt s)"
  unfolding exec_stmt_def by (intro raises_only_bind raises_only_return raises_only_execute)

lemma raises_only_commit: "raises_only E commit"
  by (simp add: raises_only_def commit_def Let_def)

lemma raises_only_never: "(\<And>w. fst (m w) = Inr ()) \<Longrightarrow> raises_only E m"
  by (simp add: raises_only_def)

lemma teardown_never_raises_revoke_error:
  "raises_only (\<lambda>e. \<not> is_revoke_error e) teardown_demo"
  unfolding teardown_demo_def teardown_drops_def teardown_extensions_def
  by (intro raises_only_block_Cons raises_only_block_Nil raises_only_bind raises_only_for_each
      raises_only_cond raises_only_return raises_only_exec_stmt raises_only_execute
      raises_only_commit raises_only_never teardown_revokes_returns; simp)

lemma trace_teardown_revokes:
  "\<exists>r1 r2 r3. set (r1 @ r2 @ r3) \<subseteq> {Rollback} \<and>
     trace (snd (teardown_revokes w)) =
       trace w @ Exec RevokeFunction # r1 @ Exec RevokeSchema # r2 @ Exec RevokeDatabase # r3"
proof -
  have step: "\<exists>r. set r \<subseteq> {Rollback} \<and>
      trace (snd (try_except (exec_stmt s) (\<lambda>e. rollback) w)) = trace w @ Exec s # r" for s w
    by (cases rule: exec_stmt_cases[of s w]) (simp_all add: try_except_def)
  have next_step: "snd (bind (try_except (exec_stmt s) (\<lambda>e. rollback)) f w) =
      snd (f () (snd (try_except (exec_stmt s) (\<lambda>e. rollback) w)))" for s f w
    using guarded_revoke_returns[of s w]
    by (cases "try_except (exec_stmt s) (\<lambda>e. rollback) w") (simp add: bind_def)
  let ?w1 = "snd (try_except (exec_stmt RevokeFunction) (\<lambda>e. rollback) w)"
  let ?w2 = "snd (try_except (exec_stmt RevokeSchema) (\<lambda>e. rollback) ?w1)"
  let ?w3 = "snd (try_except (exec_stmt RevokeDatabase) (\<lambda>e. rollback) ?w2)"
  have w3: "snd (teardown_revokes w) = ?w3"
    by (simp add: teardown_revokes_def next_step return_def)
  from step[of RevokeFunction w] step[of RevokeSchema ?w1] step[of RevokeDatabase ?w2]
  show ?thesis
    unfolding w3 by (elim exE conjE) (intro exI[where x = "_ :: event list"], auto)
qed

lemma trace_teardown_after_revokes:
  "\<exists>more. trace (snd (teardown_demo w)) =
     trace (snd (teardown_revokes w)) @ Exec DropSchema # more"
proof -
  let ?w1 = "snd (teardown_revokes w)"
  let ?w2 = "snd (execute DropSchema ?w1)"
  let ?rest = "bind (block [exec_stmt DropRole, commit]) (\<lambda>_. block [teardown_extensions])"
  have "invariant (\<lambda>w'. prefix (trace ?w2) (trace w') \<and>
      list_all (\<lambda>ev. True) (drop (length (trace ?w2)) (trace w'))) ?rest"
    by (intro invariant_teardown_rest kept_session_events) simp_all
  then have "prefix (trace ?w2) (trace (snd (?rest ?w2)))"
    by (auto dest: invariantD[where w = ?w2])
  then obtain more where "trace (snd (?rest ?w2)) = trace ?w1 @ Exec DropSchema # more"
    by (auto simp: prefix_def)
  then show ?thesis
    by (cases rule: exec_stmt_cases[of DropSchema ?w1])
       (auto simp: teardown_demo_unfold bind_Inl bind_Inr)
qed

text \<open>
  Claim C6. Each revoke of teardown is guarded on its own. Whatever the state and
  whichever statements fail, the revoke block returns normally; the three revokes are
  all issued, in order, each followed by nothing or by the rollback of its handler; the
  rest of teardown is then run in the state they leave, beginning with the namespace
  drop; and an exception out of teardown is never the error of a revoke.
\<close>

theorem revokes_individually_guarded:
  "fst (teardown_revokes w) = Inr () \<and>
   filter is_exec (issued teardown_revokes w) =
     [Exec RevokeFunction, Exec RevokeSchema, Exec RevokeDatabase] \<and>
   set (filter (\<lambda>ev. \<not> is_exec ev) (issued teardown_revokes w)) \<subseteq> {Rollback} \<and>
   teardown_demo w = block [teardown_drops, teardown_extensions] (snd (teardown_revokes w)) \<and>
   take 4 (filter is_exec (issued teardown_demo w)) =
     [Exec RevokeFunction, Exec RevokeSchema, Exec RevokeDatabase, Exec DropSchema] \<and>
   (\<forall>e. fst (teardown_demo w) = Inl e \<longrightarrow> \<not> is_revoke_error e)"
proof -
  obtain r1 r2 r3 where r: "set (r1 @ r2 @ r3) \<subseteq> {Rollback}"
    and t1: "trace (snd (teardown_revokes w)) =
       trace w @ Exec RevokeFunction # r1 @ Exec RevokeSchema # r2 @ Exec RevokeDatabase # r3"
    using trace_teardown_revokes[of w] by blast
  obtain more where t2: "trace (snd (teardown_demo w)) =
     trace (snd (teardown_revokes w)) @ Exec DropSchema # more"
    using trace_teardown_after_revokes[of w] by blast
  have f: "filter is_exec r1 = []" "filter is_exec r2 = []" "filter is_exec r3 = []"
    using r by (auto simp: filter_empty_conv)
  have c4: "teardown_demo w =
      block [teardown_drops, teardown_extensions] (snd (teardown_revokes w))"
    using teardown_revokes_returns[of w]
    by (cases "teardown_revokes w") (simp add: teardown_demo_def bind_def)
  have c6: "\<forall>e. fst (teardown_demo w) = Inl e \<longrightarrow> \<not> is_revoke_error e"
    using teardown_never_raises_revoke_error by (simp add: raises_only_def)
  have c2: "filter is_exec (issued teardown_revokes w) =
     [Exec RevokeFunction, Exec RevokeSchema, Exec RevokeDatabase]"
    by (simp add: issued_def t1 f)
  have c3: "set (filter (\<lambda>ev. \<not> is_exec ev) (issued teardown_revokes w)) \<subseteq> {Rollback}"
    using r by (auto simp: issued_def t1)
  have c5: "take 4 (filter is_exec (issued teardown_demo w)) =
     [Exec RevokeFunction, Exec RevokeSchema, Exec RevokeDatabase, Exec DropSchema]"
    by (simp add: issued_def t2 t1 f)
  show ?thesis
    using teardown_revokes_returns[of w] c2 c3 c4 c5 c6 by blast
qed

text \<open>
  The theorem at a teardown of the complete demo in which the first and the third revoke
  are forced to fail.
\<close>

theorem revokes_individually_guarded_witness:
  "issued teardown_revokes (process_start installed_db (\<lambda>n. n = 0 \<or> n = 3)) =
     [Exec RevokeFunction, Rollback, Exec RevokeSchema, Exec RevokeDatabase, Rollback] \<and>
   fst (teardown_revokes (process_start installed_db (\<lambda>n. n = 0 \<or> n = 3))) = Inr () \<and>
   take 4 (filter is_exec (issued teardown_demo (process_start installed_db (\<lambda>n. n = 0 \<or> n = 3)))) =
     [Exec RevokeFunction, Exec RevokeSchema, Exec RevokeDatabase, Exec DropSchema]"
proof -
  have "issued teardown_revokes (process_start installed_db (\<lambda>n. n = 0 \<or> n = 3)) =
     [Exec RevokeFunction, Rollback, Exec RevokeSchema, Exec RevokeDatabase, Rollback]"
    by code_simp
  with revokes_individually_guarded[of "process_start installed_db (\<lambda>n. n = 0 \<or> n = 3)"]
  show ?thesis
    by blast
qed


section \<open>The state that teardown leaves\<close>

lemma drop_extension_returns:
  assumes "exec_stmt (DropExtension r) w = (Inr (), w1)"
    and "if autocommit w then db_working w = db_committed w else txn w = InTxn"
  shows "(if autocommit w1 then db_working w1 = db_committed w1 else txn w1 = InTxn)
        \<and> autocommit w1 = autocommit w \<and> EXTENSIONS w1 = EXTENSIONS w
        \<and> db_working w1 = (db_working w)\<lparr>exts := removeAll r (exts (db_working w))\<rparr>"
  using assms
  by (auto simp: run_simps split: if_splits option.splits)

text \<open>The loop of teardown over the rows of installed demo extensions.\<close>

lemma drop_loop_returns:
  assumes "fst (for_each rs (\<lambda>ext w.
      if ext \<notin> EXTENSIONS w then exec_stmt (DropExtension ext) w else return () w) w) = Inr ()"
    and "if autocommit w then db_working w = db_committed w else txn w = InTxn"
  shows "(let w' = snd (for_each rs (\<lambda>ext w.
      if ext \<notin> EXTENSIONS w then exec_stmt (DropExtension ext) w else return () w) w) in
     (if autocommit w' then db_working w' = db_committed w' else txn w' = InTxn) \<and>
     autocommit w' = autocommit w \<and>
     EXTENSIONS w' = EXTENSIONS w \<and>
     (db_working w')\<lparr>exts := []\<rparr> = (db_working w)\<lparr>exts := []\<rparr> \<and>
     set (exts (db_working w')) =
       {e \<in> set (exts (db_working w)). \<not> (e \<in> set rs \<and> e \<notin> EXTENSIONS w)})"
  using assms
proof (induction rs arbitrary: w)
  case Nil
  then show ?case
    by (simp add: return_def)
next
  case (Cons r rs)
  let ?body = "\<lambda>ext w.
      if ext \<notin> EXTENSIONS w then exec_stmt (DropExtension ext) w else return () w"
  show ?case
  proof (cases "r \<in> EXTENSIONS w")
    case True
    then have eq: "for_each (r # rs) ?body w = for_each rs ?body w"
      by (simp add: bind_def return_def)
    have s: "{e \<in> S. \<not> (e \<in> set (r # rs) \<and> e \<notin> EXTENSIONS w)} =
        {e \<in> S. \<not> (e \<in> set rs \<and> e \<notin> EXTENSIONS w)}" for S
      using True by auto
    have "fst (for_each rs ?body w) = Inr ()"
      using Cons.prems(1) unfolding eq .
    from Cons.IH[OF this Cons.prems(2)] show ?thesis
      unfolding eq s .
  next
    case False
    from Cons.prems(1) False obtain w1 where ok: "exec_stmt (DropExtension r) w = (Inr (), w1)"
      by (cases rule: exec_stmt_cases[of "DropExtension r" w]) (simp_all add: bind_def)
    then have eq: "for_each (r # rs) ?body w = for_each rs ?body w1"
      using False by (simp add: bind_def)
    note w1 = drop_extension_returns[OF ok Cons.prems(2)]
    have j1: "if autocommit w1 then db_working w1 = db_committed w1 else txn w1 = InTxn"
      using w1 by (rule conjunct1)
    have a1: "autocommit w1 = autocommit w"
      using w1 by (elim conjE)
    have x1: "EXTENSIONS w1 = EXTENSIONS w"
      using w1 by (elim conjE)
    have d1: "db_working w1 = (db_working w)\<lparr>exts := removeAll r (exts (db_working w))\<rparr>"
      using w1 by (elim conjE)
    have s: "{e \<in> set (exts (db_working w1)). \<not> (e \<in> set rs \<and> e \<notin> EXTENSIONS w)} =
        {e \<in> set (exts (db_working w)). \<not> (e \<in> set (r # rs) \<and> e \<notin> EXTENSIONS w)}"
      unfolding d1 using False by auto
    have d: "(db_working w1)\<lparr>exts := []\<rparr> = (db_working w)\<lparr>exts := []\<rparr>"
      unfolding d1 by simp
    from Cons.prems(1) have "fst (for_each rs ?body w1) = Inr ()"
      unfolding eq .
    from Cons.IH[OF this j1] show ?thesis
      unfolding eq s a1 x1 d .
  qed
qed

lemma teardown_drops_returns:
  assumes "fst (teardown_drops w) = Inr ()"
  shows "txn (snd (teardown_drops w)) = Idle \<and>
     db_working (snd (teardown_drops w)) = db_committed (snd (teardown_drops w)) \<and>
     torn_down (db_committed (snd (teardown_drops w))) \<and>
     EXTENSIONS (snd (teardown_drops w)) = EXTENSIONS w \<and>
     faults (snd (teardown_drops w)) = faults w \<and>
     autocommit (snd (teardown_drops w)) = autocommit w"
  using assms
  by (auto simp: teardown_drops_def torn_down_def run_simps
      split: if_splits option.splits txn_status.splits)

lemma torn_down_exts:
  assumes "d'\<lparr>exts := []\<rparr> = d\<lparr>exts := []\<rparr>"
  shows "torn_down d' = torn_down d"
proof -
  have "f d' = f d" if "\<And>x. f (x\<lparr>exts := []\<rparr>) = f x" for f :: "db \<Rightarrow> bool"
    using that[of d'] that[of d] assms by simp
  from this[of schema] this[of role] this[of addr_table] this[of ix_btree] this[of ix_gin]
    this[of func] this[of grant_schema] this[of grant_func]
  show ?thesis
    by (simp add: torn_down_def)
qed

lemma teardown_extensions_returns:
  assumes "fst (teardown_extensions w) = Inr ()" and "txn w = Idle"
    and "db_working w = db_committed w"
  shows "txn (snd (teardown_extensions w)) = Idle \<and>
     db_working (snd (teardown_extensions w)) = db_committed (snd (teardown_extensions w)) \<and>
     torn_down (db_committed (snd (teardown_extensions w))) = torn_down (db_committed w) \<and>
     EXTENSIONS (snd (teardown_extensions w)) = EXTENSIONS w \<and>
     set (exts (db_committed (snd (teardown_extensions w)))) =
       {e \<in> set (exts (db_committed w)). \<not> (e \<in> set demo_extensions \<and> e \<notin> EXTENSIONS w)}"
proof -
  let ?body = "\<lambda>ext w.
      if ext \<notin> EXTENSIONS w then exec_stmt (DropExtension ext) w else return () w"
  let ?rs = "filter (\<lambda>e. e \<in> set demo_extensions) (exts (db_working w))"
  obtain w1 where sel: "execute SelectDemoExtensions w = (Inr ?rs, w1)"
    using assms(1)
    by (cases "execute SelectDemoExtensions w")
       (auto simp: teardown_extensions_def run_simps split: if_splits)
  have w1: "(if autocommit w1 then db_working w1 = db_committed w1 else txn w1 = InTxn)"
    and w1': "db_working w1 = db_working w" "EXTENSIONS w1 = EXTENSIONS w"
    using sel assms(2,3)
    by (auto simp: run_simps split: if_splits)
  obtain w2 where loop: "for_each ?rs ?body w1 = (Inr (), w2)"
    using assms(1)
    by (cases "for_each ?rs ?body w1"; cases "fst (for_each ?rs ?body w1)")
       (auto simp: teardown_extensions_def bind_def sel)
  then have "fst (for_each ?rs ?body w1) = Inr ()"
    by simp
  note l = drop_loop_returns[OF this w1, unfolded Let_def loop snd_conv]
  have fin: "teardown_extensions w = commit w2"
    by (auto simp: teardown_extensions_def bind_def sel loop return_def
        split: prod.splits sum.splits)
  have l1: "if autocommit w2 then db_working w2 = db_committed w2 else txn w2 = InTxn"
    using l by (rule conjunct1)
  have l3: "EXTENSIONS w2 = EXTENSIONS w"
    using l w1'(2) by (elim conjE) simp
  have l4: "(db_working w2)\<lparr>exts := []\<rparr> = (db_working w)\<lparr>exts := []\<rparr>"
    using l w1'(1) by (elim conjE) simp
  have l5: "set (exts (db_working w2)) =
      {e \<in> set (exts (db_working w)). \<not> (e \<in> set demo_extensions \<and> e \<notin> EXTENSIONS w)}"
    using l w1'(1,2) by (elim conjE) auto
  have c: "txn (snd (commit w2)) = Idle \<and> db_working (snd (commit w2)) = db_working w2 \<and>
      db_committed (snd (commit w2)) = db_working w2 \<and>
      EXTENSIONS (snd (commit w2)) = EXTENSIONS w2"
    using l1 by (cases "txn w2") (auto simp: commit_def record_event_def Let_def split: if_splits)
  show ?thesis
    unfolding fin using c l3 l5 torn_down_exts[OF l4] assms(3) by simp
qed

lemma teardown_demo_after_revokes:
  "teardown_demo w = block [teardown_drops, teardown_extensions] (snd (teardown_revokes w))"
  using teardown_revokes_returns[of w]
  by (cases "teardown_revokes w") (simp add: teardown_demo_def bind_def)

lemma frame_teardown_revokes:
  "faults (snd (teardown_revokes w)) = faults w \<and>
   EXTENSIONS (snd (teardown_revokes w)) = EXTENSIONS w"
proof -
  have "invariant (\<lambda>w'. faults w' = faults w \<and> EXTENSIONS w' = EXTENSIONS w) teardown_revokes"
    by (intro invariant_teardown_revokes kept_session kept_frame)
  then show ?thesis
    by (rule invariantD) simp
qed

lemma teardown_demo_returns:
  assumes "fst (teardown_demo w) = Inr ()"
  shows "txn (snd (teardown_demo w)) = Idle \<and>
     db_working (snd (teardown_demo w)) = db_committed (snd (teardown_demo w)) \<and>
     torn_down (db_committed (snd (teardown_demo w))) \<and>
     EXTENSIONS (snd (teardown_demo w)) = EXTENSIONS w \<and>
     (\<forall>e\<in>set demo_extensions.
        e \<in> set (exts (db_committed (snd (teardown_demo w)))) \<longrightarrow> e \<in> EXTENSIONS w)"
proof -
  let ?w1 = "snd (teardown_revokes w)"
  obtain w2 where drops: "teardown_drops ?w1 = (Inr (), w2)"
    using assms unfolding teardown_demo_after_revokes
    by (cases "teardown_drops ?w1"; cases "fst (teardown_drops ?w1)") (auto simp: bind_def)
  then have "fst (teardown_drops ?w1) = Inr ()"
    by simp
  note d = teardown_drops_returns[OF this, unfolded drops snd_conv]
  have td: "teardown_demo w = teardown_extensions w2"
    unfolding teardown_demo_after_revokes
    by (auto simp: bind_def drops return_def split: prod.splits sum.splits)
  have "fst (teardown_extensions w2) = Inr ()"
    using assms unfolding td .
  note e = teardown_extensions_returns[OF this]
  have "txn w2 = Idle" "db_working w2 = db_committed w2"
    using d by blast+
  note e = e[OF this]
  have x: "EXTENSIONS w2 = EXTENSIONS w" and t: "torn_down (db_committed w2)"
    using d frame_teardown_revokes[of w] by auto
  show ?thesis
    unfolding td using e x t by auto
qed

lemma drop_loop_skips:
  assumes "\<forall>e\<in>set rs. e \<in> EXTENSIONS w"
  shows "for_each rs (\<lambda>ext w.
      if ext \<notin> EXTENSIONS w then exec_stmt (DropExtension ext) w else return () w) w = (Inr (), w)"
  using assms by (induction rs) (simp_all add: return_def bind_def)

lemma torn_down_drop_schema:
  assumes "torn_down d"
  shows "d\<lparr>schema := False, addr_table := False, ix_btree := False, ix_gin := False,
             func := False, grant_schema := False, grant_func := False\<rparr> = d"
  using assms by (cases d) (simp add: torn_down_def)

lemma teardown_demo_again:
  assumes "txn w = Idle" and "db_working w = db_committed w" and "torn_down (db_committed w)"
    and "\<forall>e\<in>set demo_extensions. e \<in> set (exts (db_committed w)) \<longrightarrow> e \<in> EXTENSIONS w"
    and "\<forall>k\<ge>length (trace w). \<not> faults w k"
  shows "fst (teardown_demo w) = Inr () \<and>
     db_committed (snd (teardown_demo w)) = db_committed w \<and>
     issued teardown_demo w =
       [Exec RevokeFunction, Rollback, Exec RevokeSchema, Rollback, Exec RevokeDatabase,
        Rollback, Exec DropSchema, Exec DropRole, Commit, Exec SelectDemoExtensions, Commit]"
proof -
  have nr: "\<not> role (db_committed w)" "\<not> role (db_working w)"
    using assms(2,3) by (simp_all add: torn_down_def)
  have skip: "for_each (filter (\<lambda>e. e \<in> set demo_extensions) (exts (db_committed w)))
      (\<lambda>ext w. if ext \<notin> EXTENSIONS w then exec_stmt (DropExtension ext) w else return () w) w'
      = (Inr (), w')" if "EXTENSIONS w' = EXTENSIONS w" for w'
    by (rule drop_loop_skips) (use assms(4) that in auto)
  show ?thesis
    using assms(1,2,5) nr
    by (cases "autocommit w")
       (simp_all add: teardown_demo_def teardown_revokes_def teardown_drops_def
         teardown_extensions_def issued_def run_simps skip
         torn_down_drop_schema[OF assms(3)])
qed

lemma frame_teardown_demo:
  "faults (snd (teardown_demo w)) = faults w \<and>
   EXTENSIONS (snd (teardown_demo w)) = EXTENSIONS w"
proof -
  have "invariant (\<lambda>w'. faults w' = faults w \<and> EXTENSIONS w' = EXTENSIONS w) teardown_demo"
    by (intro invariant_teardown_demo kept_session kept_frame)
  then show ?thesis
    by (rule invariantD) simp
qed

section \<open>Teardown twice\<close>

text \<open>
  Claim C5. Teardown is idempotent. Let teardown run to its end, and let it run once
  more in the state it left, with no failure forced on the second run. The second run
  ends without error: its three revokes are rejected for want of the role and caught by
  their handlers, its two drops succeed as no-ops on the missing namespace and role, and
  it finds no extension left to drop. It leaves the committed database as the first run
  left it: without the namespace, without the restricted role, and with none of the two
  demo extensions but those of the registry.
\<close>

theorem teardown_demo_idempotent:
  assumes "fst (teardown_demo w) = Inr ()"
    and "\<forall>k\<ge>length (trace (snd (teardown_demo w))). \<not> faults w k"
  shows "fst (teardown_demo (snd (teardown_demo w))) = Inr () \<and>
     issued teardown_demo (snd (teardown_demo w)) =
       [Exec RevokeFunction, Rollback, Exec RevokeSchema, Rollback, Exec RevokeDatabase,
        Rollback, Exec DropSchema, Exec DropRole, Commit, Exec SelectDemoExtensions, Commit] \<and>
     db_committed (snd (teardown_demo (snd (teardown_demo w)))) =
       db_committed (snd (teardown_demo w)) \<and>
     \<not> schema (db_committed (snd (teardown_demo (snd (teardown_demo w))))) \<and>
     \<not> role (db_committed (snd (teardown_demo (snd (teardown_demo w))))) \<and>
     (\<forall>e\<in>set demo_extensions.
        e \<in> set (exts (db_committed (snd (teardown_demo (snd (teardown_demo w)))))) \<longrightarrow>
        e \<in> EXTENSIONS w)"
proof -
  let ?w1 = "snd (teardown_demo w)"
  note first = teardown_demo_returns[OF assms(1)]
  have fr: "faults ?w1 = faults w" "EXTENSIONS ?w1 = EXTENSIONS w"
    using frame_teardown_demo[of w] by blast+
  have "fst (teardown_demo ?w1) = Inr () \<and>
     db_committed (snd (teardown_demo ?w1)) = db_committed ?w1 \<and>
     issued teardown_demo ?w1 =
       [Exec RevokeFunction, Rollback, Exec RevokeSchema, Rollback, Exec RevokeDatabase,
        Rollback, Exec DropSchema, Exec DropRole, Commit, Exec SelectDemoExtensions, Commit]"
    by (rule teardown_demo_again) (use first fr assms(2) in auto)
  moreover have "\<not> schema (db_committed ?w1)" "\<not> role (db_committed ?w1)"
    using first by (simp_all add: torn_down_def)
  ultimately show ?thesis
    using first by simp
qed

text \<open>
  The theorem at two teardowns of the complete demo, in a process whose registry is
  empty.
\<close>

theorem teardown_demo_idempotent_witness:
  "fst (teardown_demo (process_start installed_db (\<lambda>n. False))) = Inr () \<and>
   fst (teardown_demo (snd (teardown_demo (process_start installed_db (\<lambda>n. False))))) = Inr () \<and>
   db_committed (snd (teardown_demo (snd (teardown_demo
      (process_start installed_db (\<lambda>n. False)))))) =
     db_committed (snd (teardown_demo (process_start installed_db (\<lambda>n. False)))) \<and>
   exts (db_committed (snd (teardown_demo (process_start installed_db (\<lambda>n. False))))) =
     [''plpgsql'']"
proof -
  let ?w = "process_start installed_db (\<lambda>n. False)"
  have h1: "fst (teardown_demo ?w) = Inr ()"
    by code_simp
  have h2: "\<forall>k\<ge>length (trace (snd (teardown_demo ?w))). \<not> faults ?w k"
    by (simp add: process_start_def)
  have x: "exts (db_committed (snd (teardown_demo ?w))) = [''plpgsql'']"
    by code_simp
  from teardown_demo_idempotent[OF h1 h2] h1 x show ?thesis
    by blast
qed

section \<open>Extensions and the registry\<close>

lemma snd_exec_stmt: "snd (exec_stmt s w) = snd (execute s w)"
  by (cases rule: exec_stmt_cases[of s w]) simp_all







section \<open>The session of the restricted role\<close>

lemma invariant_events:
  fixes A :: "event \<Rightarrow> bool" and t0 :: "event list"
  defines "I \<equiv> \<lambda>w. prefix t0 (trace w) \<and> list_all A (drop (length t0) (trace w))"
  shows "A (Exec s) \<Longrightarrow> invariant I (execute s)"
    and "A (UExec s) \<Longrightarrow> invariant I (uexecute s)"
    and "A Commit \<Longrightarrow> invariant I commit"
    and "A Rollback \<Longrightarrow> invariant I rollback"
    and "A Prompt \<Longrightarrow> invariant I prompt"
    and "A UConnect \<Longrightarrow> invariant I uconnect"
    and "A URollback \<Longrightarrow> invariant I urollback"
    and "A UClose \<Longrightarrow> invariant I uclose"
  unfolding I_def invariant_def by (auto simp: prefix_def)

lemma uconn_open_operations [simp]:
  "uconn_open (snd (execute s w)) = uconn_open w" "uconn_open (snd (commit w)) = uconn_open w"
  "uconn_open (snd (rollback w)) = uconn_open w" "uconn_open (snd (prompt w)) = uconn_open w"
  "uconn_open (snd (uexecute s w)) = uconn_open w"
  by (simp_all add: execute_def uexecute_def commit_def rollback_def prompt_def
      record_event_def Let_def split: option.split txn_status.split)

text \<open>Before the connection attempt nothing touches the secondary session.\<close>

lemma before_uconnect:
  "uconn_open (snd (block [prompt, (if i then create_unpriveleged_user else return ())] w)) =
     uconn_open w \<and>
   trace (snd (block [prompt, (if i then create_unpriveleged_user else return ())] w)) =
     trace w @ issued (block [prompt, (if i then create_unpriveleged_user else return ())]) w \<and>
   list_all is_primary_or_prompt
     (issued (block [prompt, (if i then create_unpriveleged_user else return ())]) w)"
proof -
  let ?m = "block [prompt, (if i then create_unpriveleged_user else return ())]"
  have "invariant (\<lambda>w'. uconn_open w' = uconn_open w) ?m"
    unfolding create_unpriveleged_user_def
    by (intro invariant_block_Cons invariant_block_Nil invariant_if invariant_return
        invariant_exec_stmt)
       (simp_all add: invariant_def)
  then have "uconn_open (snd (?m w)) = uconn_open w"
    by (rule invariantD) simp
  moreover have "trace (snd (?m w)) = trace w @ issued ?m w \<and>
      list_all is_primary_or_prompt (issued ?m w)"
    unfolding create_unpriveleged_user_def
    by (rule issuedI)
       (intro invariant_block_Cons invariant_block_Nil invariant_if invariant_return
        invariant_exec_stmt invariant_events; simp)
  ultimately show ?thesis
    by blast
qed

text \<open>The statements under \<^verbatim>\<open>try\<close> neither roll back nor close the secondary session.\<close>

lemma under_try:
  "\<exists>more. trace (snd (block [uexec_stmt SelectPssUnqualified, prompt, exec_stmt CreateFunction,
       exec_stmt GrantExecute, commit, uexec_stmt SelectCurrentUser, prompt,
       uexec_stmt CallFunction, prompt] w)) = trace w @ UExec SelectPssUnqualified # more \<and>
     list_all (\<lambda>ev. ev \<noteq> URollback \<and> ev \<noteq> UClose) more"
proof -
  let ?rest = "block [prompt, exec_stmt CreateFunction, exec_stmt GrantExecute, commit,
      uexec_stmt SelectCurrentUser, prompt, uexec_stmt CallFunction, prompt]"
  let ?w1 = "snd (uexecute SelectPssUnqualified w)"
  have "trace (snd (?rest ?w1)) = trace ?w1 @ issued ?rest ?w1 \<and>
      list_all (\<lambda>ev. ev \<noteq> URollback \<and> ev \<noteq> UClose) (issued ?rest ?w1)"
    by (rule issuedI)
       (intro invariant_block_Cons invariant_block_Nil invariant_exec_stmt
        invariant_uexec_stmt invariant_events; simp)
  then have rest: "trace (snd (?rest ?w1)) =
      trace w @ UExec SelectPssUnqualified # issued ?rest ?w1"
    and ok: "list_all (\<lambda>ev. ev \<noteq> URollback \<and> ev \<noteq> UClose) (issued ?rest ?w1)"
    by simp_all
  show ?thesis
  proof (cases "fst (uexecute SelectPssUnqualified w)")
    case (Inl e)
    then have "uexec_stmt SelectPssUnqualified w = (Inl e, ?w1)"
      by (cases "uexecute SelectPssUnqualified w") (simp add: uexec_stmt_def bind_def)
    then show ?thesis
      by (simp add: bind_def)
  next
    case (Inr rs)
    then have "uexec_stmt SelectPssUnqualified w = (Inr (), ?w1)"
      by (cases "uexecute SelectPssUnqualified w") (simp add: uexec_stmt_def bind_def return_def)
    then show ?thesis
      using rest ok by (simp add: bind_def)
  qed
qed

section \<open>Atomic setup\<close>

text \<open>Statements run one after the other, up to the first that raises.\<close>

lemma statements_return:
  assumes "block (map exec_stmt ss) w = (Inr (), w')" and "\<not> autocommit w"
  shows "trace w' = trace w @ map Exec ss \<and> db_committed w' = db_committed w \<and>
     \<not> autocommit w' \<and> EXTENSIONS w' = EXTENSIONS w"
  using assms
proof (induction ss arbitrary: w)
  case Nil
  then show ?case
    by (simp add: return_def)
next
  case (Cons s ss)
  from Cons.prems(1) obtain w1 where s: "exec_stmt s w = (Inr (), w1)"
    and rest: "block (map exec_stmt ss) w1 = (Inr (), w')"
    by (cases rule: exec_stmt_cases[of s w]) (simp_all add: bind_def)
  have w1: "trace w1 = trace w @ [Exec s] \<and> db_committed w1 = db_committed w \<and>
      \<not> autocommit w1 \<and> EXTENSIONS w1 = EXTENSIONS w"
    using s Cons.prems(2) by (auto simp: run_simps split: if_splits option.splits)
  from Cons.IH[OF rest] w1 show ?case
    by simp
qed

lemma statements_raise:
  assumes "k < length ss" and "block (map exec_stmt (take k ss)) w = (Inr (), w')"
    and "fst (exec_stmt (ss ! k) w') \<noteq> Inr ()"
  shows "block (map exec_stmt ss) w = (Inl (DbError (ss ! k)), snd (execute (ss ! k) w'))"
proof -
  have ss: "ss = take k ss @ ss ! k # drop (Suc k) ss"
    using assms(1) by (simp add: id_take_nth_drop)
  have "exec_stmt (ss ! k) w' = (Inl (DbError (ss ! k)), snd (execute (ss ! k) w'))"
    using assms(3) by (cases rule: exec_stmt_cases[of "ss ! k" w']) simp_all
  then have "block (map exec_stmt (take k ss @ ss ! k # drop (Suc k) ss)) w =
      (Inl (DbError (ss ! k)), snd (execute (ss ! k) w'))"
    by (simp add: block_append bind_def assms(2))
  then show ?thesis
    using ss by simp
qed

lemma EXTENSIONS_exec_stmt [simp]: "EXTENSIONS (snd (exec_stmt s w)) = EXTENSIONS w"
  by (simp add: snd_exec_stmt)

lemma bind_exec_stmt_cong:
  assumes "\<And>w'. EXTENSIONS w' = EXTENSIONS w \<Longrightarrow> f () w' = g () w'"
  shows "bind (exec_stmt s) f w = bind (exec_stmt s) g w"
  using assms[of "snd (exec_stmt s w)"]
  by (cases rule: exec_stmt_cases[of s w]) (simp_all add: bind_def)

lemma setup_demo_statements:
  "setup_demo w =
     try_except_else (block (map exec_stmt (setup_statements (EXTENSIONS w))))
       (\<lambda>e. bind rollback (\<lambda>_. raise e)) commit w"
proof -
  let ?c1 = "\<lambda>w. if ''pg_trgm'' \<notin> EXTENSIONS w
      then exec_stmt (CreateExtension ''pg_trgm'') w else return () w"
  let ?c2 = "\<lambda>w. if ''pg_stat_statements'' \<notin> EXTENSIONS w
      then exec_stmt (CreateExtension ''pg_stat_statements'') w else return () w"
  let ?s2 = "(if ''pg_stat_statements'' \<notin> EXTENSIONS w
      then [CreateExtension ''pg_stat_statements''] else []) @ [SetSearchPath]"
  let ?s1 = "(if ''pg_trgm'' \<notin> EXTENSIONS w then [CreateExtension ''pg_trgm''] else []) @ ?s2"
  have two: "block [?c2, exec_stmt SetSearchPath] w2 = block (map exec_stmt ?s2) w2"
    if "EXTENSIONS w2 = EXTENSIONS w" for w2
    using that by (simp add: bind_def return_def)
  have one: "block [?c1, ?c2, exec_stmt SetSearchPath] w1 = block (map exec_stmt ?s1) w1"
    if x: "EXTENSIONS w1 = EXTENSIONS w" for w1
  proof (cases "''pg_trgm'' \<in> EXTENSIONS w")
    case True
    have "block [?c1, ?c2, exec_stmt SetSearchPath] w1 = block [?c2, exec_stmt SetSearchPath] w1"
      using True x by (simp add: bind_def return_def)
    with two[OF x] True show ?thesis
      by simp
  next
    case False
    have "block [?c1, ?c2, exec_stmt SetSearchPath] w1 =
        bind (exec_stmt (CreateExtension ''pg_trgm'')) (\<lambda>_. block [?c2, exec_stmt SetSearchPath]) w1"
      using False x by (simp add: bind_def)
    also have "\<dots> = bind (exec_stmt (CreateExtension ''pg_trgm''))
        (\<lambda>_. block (map exec_stmt ?s2)) w1"
      by (rule bind_exec_stmt_cong) (rule two, simp add: x)
    also have "\<dots> = block (map exec_stmt ?s1) w1"
      using False by simp
    finally show ?thesis .
  qed
  have "block [exec_stmt CreateSchema, ?c1, ?c2, exec_stmt SetSearchPath] w =
      bind (exec_stmt CreateSchema) (\<lambda>_. block [?c1, ?c2, exec_stmt SetSearchPath]) w"
    by simp
  also have "\<dots> = bind (exec_stmt CreateSchema) (\<lambda>_. block (map exec_stmt ?s1)) w"
    by (rule bind_exec_stmt_cong) (rule one)
  also have "\<dots> = block (map exec_stmt (setup_statements (EXTENSIONS w))) w"
    by (simp add: setup_statements_def)
  finally show ?thesis
    by (simp add: setup_demo_def try_except_else_def)
qed

lemma statements_return_txn:
  assumes "block (map exec_stmt ss) w = (Inr (), w')" and "\<not> autocommit w" and "ss \<noteq> []"
  shows "txn w' = InTxn"
  using assms
proof (induction ss arbitrary: w)
  case Nil
  then show ?case
    by simp
next
  case (Cons s ss)
  from Cons.prems(1) obtain w1 where s: "exec_stmt s w = (Inr (), w1)"
    and rest: "block (map exec_stmt ss) w1 = (Inr (), w')"
    by (cases rule: exec_stmt_cases[of s w]) (simp_all add: bind_def)
  have w1: "txn w1 = InTxn" "\<not> autocommit w1"
    using s Cons.prems(2) by (auto simp: run_simps split: if_splits option.splits)
  show ?case
  proof (cases "ss = []")
    case True
    with rest w1 show ?thesis
      by (simp add: return_def)
  next
    case False
    from Cons.IH[OF rest w1(2) False] show ?thesis .
  qed
qed

lemma execute_raises:
  assumes "fst (exec_stmt s w) \<noteq> Inr ()"
  shows "db_committed (snd (execute s w)) = db_committed w"
  using assms by (auto simp: run_simps split: if_splits option.splits)

text \<open>
  Claim C3. Setup is atomic. Let \<^verbatim>\<open>setup_demo\<close> run in a session without autocommit
  (psycopg2's default, which nothing before setup changes), and take its statements in
  order. If the statements before the \<open>k\<close>-th succeed and the \<open>k\<close>-th fails, setup
  raises the very exception of that statement, having issued the statements up to it and
  then one rollback and nothing else; the committed database is what it was before
  setup, the session's view is back at it (no schema, extension or search path of this
  setup remains) and no transaction is open. If all the statements succeed, setup returns
  normally, having issued them and then one commit, which makes the state they produced
  the committed database and ends the transaction.
\<close>

theorem setup_demo_atomic:
  assumes "\<not> autocommit w"
  shows "(\<forall>k w'. k < length (setup_statements (EXTENSIONS w)) \<and>
            block (map exec_stmt (take k (setup_statements (EXTENSIONS w)))) w = (Inr (), w') \<and>
            fst (exec_stmt (setup_statements (EXTENSIONS w) ! k) w') \<noteq> Inr () \<longrightarrow>
              fst (setup_demo w) = fst (exec_stmt (setup_statements (EXTENSIONS w) ! k) w') \<and>
              fst (setup_demo w) = Inl (DbError (setup_statements (EXTENSIONS w) ! k)) \<and>
              issued setup_demo w =
                map Exec (take (Suc k) (setup_statements (EXTENSIONS w))) @ [Rollback] \<and>
              db_committed (snd (setup_demo w)) = db_committed w \<and>
              db_working (snd (setup_demo w)) = db_committed w \<and>
              txn (snd (setup_demo w)) = Idle) \<and>
         (\<forall>w'. block (map exec_stmt (setup_statements (EXTENSIONS w))) w = (Inr (), w') \<longrightarrow>
              fst (setup_demo w) = Inr () \<and>
              issued setup_demo w = map Exec (setup_statements (EXTENSIONS w)) @ [Commit] \<and>
              db_committed (snd (setup_demo w)) = db_working w' \<and>
              db_working (snd (setup_demo w)) = db_working w' \<and>
              txn (snd (setup_demo w)) = Idle)"
proof (intro conjI allI impI)
  fix k w'
  let ?ss = "setup_statements (EXTENSIONS w)"
  assume a: "k < length ?ss \<and> block (map exec_stmt (take k ?ss)) w = (Inr (), w') \<and>
    fst (exec_stmt (?ss ! k) w') \<noteq> Inr ()"
  then have k: "k < length ?ss" and pre: "block (map exec_stmt (take k ?ss)) w = (Inr (), w')"
    and fails: "fst (exec_stmt (?ss ! k) w') \<noteq> Inr ()"
    by blast+
  let ?w1 = "snd (execute (?ss ! k) w')"
  have body: "block (map exec_stmt ?ss) w = (Inl (DbError (?ss ! k)), ?w1)"
    by (rule statements_raise[OF k pre fails])
  have r: "setup_demo w = (Inl (DbError (?ss ! k)), snd (rollback ?w1))"
    by (simp add: setup_demo_statements try_except_else_def body bind_def raise_def rollback_def)
  have w': "trace w' = trace w @ map Exec (take k ?ss)" "db_committed w' = db_committed w"
    using statements_return[OF pre assms] by simp_all
  have tk: "take (Suc k) ?ss = take k ?ss @ [?ss ! k]"
    using k by (simp add: take_Suc_conv_app_nth)
  show "fst (setup_demo w) = fst (exec_stmt (?ss ! k) w')"
    using fails by (cases rule: exec_stmt_cases[of "?ss ! k" w']) (simp_all add: r)
  show "fst (setup_demo w) = Inl (DbError (?ss ! k))"
    by (simp add: r)
  show "issued setup_demo w = map Exec (take (Suc k) ?ss) @ [Rollback]"
    by (simp add: issued_def r w' tk)
  show "db_committed (snd (setup_demo w)) = db_committed w"
    and "db_working (snd (setup_demo w)) = db_committed w"
    and "txn (snd (setup_demo w)) = Idle"
    using execute_raises[OF fails] by (simp_all add: r rollback_def record_event_def w')
next
  fix w'
  let ?ss = "setup_statements (EXTENSIONS w)"
  assume body: "block (map exec_stmt ?ss) w = (Inr (), w')"
  have r: "setup_demo w = commit w'"
    by (simp add: setup_demo_statements try_except_else_def body)
  have w': "trace w' = trace w @ map Exec ?ss"
    using statements_return[OF body assms] by simp
  have t: "txn w' = InTxn"
    by (rule statements_return_txn[OF body assms]) (simp add: setup_statements_def)
  show "fst (setup_demo w) = Inr ()"
    by (simp add: r commit_def Let_def)
  show "issued setup_demo w = map Exec ?ss @ [Commit]"
    by (simp add: issued_def r w')
  show "db_committed (snd (setup_demo w)) = db_working w'"
    and "db_working (snd (setup_demo w)) = db_working w'"
    and "txn (snd (setup_demo w)) = Idle"
    by (simp_all add: r commit_def record_event_def Let_def t)
qed

text \<open>
  The theorem at a setup on the stock server whose first extension creation is forced to
  fail, and at one on which nothing fails.
\<close>

theorem setup_demo_atomic_witness:
  "\<not> autocommit (process_start stock_db (\<lambda>n. n = 1)) \<and>
   fst (block (map exec_stmt (take 1 (setup_statements {}))) (process_start stock_db (\<lambda>n. n = 1))) =
     Inr () \<and>
   fst (exec_stmt (setup_statements {} ! 1)
     (snd (block (map exec_stmt (take 1 (setup_statements {})))
        (process_start stock_db (\<lambda>n. n = 1))))) \<noteq> Inr () \<and>
   fst (setup_demo (process_start stock_db (\<lambda>n. n = 1))) =
     Inl (DbError (CreateExtension ''pg_trgm'')) \<and>
   issued setup_demo (process_start stock_db (\<lambda>n. n = 1)) =
     [Exec CreateSchema, Exec (CreateExtension ''pg_trgm''), Rollback] \<and>
   db_committed (snd (setup_demo (process_start stock_db (\<lambda>n. n = 1)))) = stock_db \<and>
   fst (block (map exec_stmt (setup_statements {})) (process_start stock_db (\<lambda>n. False))) =
     Inr () \<and>
   fst (setup_demo (process_start stock_db (\<lambda>n. False))) = Inr () \<and>
   issued setup_demo (process_start stock_db (\<lambda>n. False)) =
     [Exec CreateSchema, Exec (CreateExtension ''pg_trgm''),
      Exec (CreateExtension ''pg_stat_statements''), Exec SetSearchPath, Commit]"
proof -
  let ?w = "process_start stock_db (\<lambda>n. n = 1)"
  let ?v = "process_start stock_db (\<lambda>n. False)"
  let ?ss = "setup_statements {}"
  let ?w' = "snd (block (map exec_stmt (take 1 ?ss)) ?w)"
  let ?v' = "snd (block (map exec_stmt ?ss) ?v)"
  have x: "EXTENSIONS ?w = {}" "EXTENSIONS ?v = {}"
    by (simp_all add: process_start_def)
  have a: "\<not> autocommit ?w" "\<not> autocommit ?v"
    by (simp_all add: process_start_def)
  have k: "1 < length ?ss"
    by (simp add: setup_statements_def)
  have p: "fst (block (map exec_stmt (take 1 ?ss)) ?w) = Inr ()"
    by code_simp
  then have pre: "block (map exec_stmt (take 1 ?ss)) ?w = (Inr (), ?w')"
    by (simp add: prod_eq_iff)
  have f: "fst (exec_stmt (?ss ! 1) ?w') \<noteq> Inr ()"
    by code_simp
  have q: "fst (block (map exec_stmt ?ss) ?v) = Inr ()"
    by code_simp
  then have all: "block (map exec_stmt ?ss) ?v = (Inr (), ?v')"
    by (simp add: prod_eq_iff)
  have s1: "?ss ! 1 = CreateExtension ''pg_trgm''"
    and s2: "map Exec (take (Suc 1) ?ss) = [Exec CreateSchema, Exec (CreateExtension ''pg_trgm'')]"
    and s3: "map Exec ?ss = [Exec CreateSchema, Exec (CreateExtension ''pg_trgm''),
      Exec (CreateExtension ''pg_stat_statements''), Exec SetSearchPath]"
    by (simp_all add: setup_statements_def)
  from setup_demo_atomic[OF a(1), unfolded x] k pre f
  have "fst (setup_demo ?w) = Inl (DbError (?ss ! 1)) \<and>
      issued setup_demo ?w = map Exec (take (Suc 1) ?ss) @ [Rollback] \<and>
      db_committed (snd (setup_demo ?w)) = db_committed ?w"
    by blast
  then have one: "fst (setup_demo ?w) = Inl (DbError (CreateExtension ''pg_trgm'')) \<and>
      issued setup_demo ?w = [Exec CreateSchema, Exec (CreateExtension ''pg_trgm''), Rollback] \<and>
      db_committed (snd (setup_demo ?w)) = stock_db"
    unfolding s1 s2 by (simp add: process_start_def)
  from setup_demo_atomic[OF a(2), unfolded x] all
  have "fst (setup_demo ?v) = Inr () \<and> issued setup_demo ?v = map Exec ?ss @ [Commit]"
    by blast
  then have two: "fst (setup_demo ?v) = Inr () \<and>
      issued setup_demo ?v = [Exec CreateSchema, Exec (CreateExtension ''pg_trgm''),
        Exec (CreateExtension ''pg_stat_statements''), Exec SetSearchPath, Commit]"
    unfolding s3 by simp
  show ?thesis
    using a(1) p f q one two by blast
qed

section \<open>The revokes in one transaction\<close>









section \<open>Release of the session of the restricted role\<close>

lemma released:
  "fst (try_finally m (block [urollback, uclose]) w) = fst (m w)"
  "trace (snd (try_finally m (block [urollback, uclose]) w)) =
     trace (snd (m w)) @ [URollback, UClose]"
  "uconn_open (snd (try_finally m (block [urollback, uclose]) w)) = False"
  "utxn (snd (try_finally m (block [urollback, uclose]) w)) = Idle"
  by (cases "m w";
      simp add: try_finally_def bind_def return_def urollback_def uclose_def record_event_def)+

lemma trace_acquire_uconn:
  "trace (snd (acquire_uconn i w)) = trace w @ issued (acquire_uconn i) w \<and>
   list_all (\<lambda>ev. is_primary_or_prompt ev \<or> ev = UConnect) (issued (acquire_uconn i) w)"
  unfolding create_unpriveleged_user_def
  by (rule issuedI)
     (intro invariant_block_Cons invariant_block_Nil invariant_if invariant_return
      invariant_exec_stmt invariant_events; simp)

lemma trace_use_uconn:
  "trace (snd (use_uconn w)) = trace w @ issued use_uconn w \<and>
   list_all (\<lambda>ev. ev \<noteq> URollback \<and> ev \<noteq> UClose) (issued use_uconn w)"
  by (rule issuedI)
     (intro invariant_block_Cons invariant_block_Nil invariant_exec_stmt
      invariant_uexec_stmt invariant_events; simp)

lemma demo_unprivileged_user_parts:
  "demo_unprivileged_user i =
     bind (acquire_uconn i)
       (\<lambda>_. block [try_finally use_uconn (block [urollback, uclose]), rollback])"
  unfolding demo_unprivileged_user_def
  using block_append[of "[prompt, (if i then create_unpriveleged_user else return ()), uconnect]"
      "[try_finally use_uconn (block [urollback, uclose]), rollback]"]
  by simp

lemma acquire_uconn_raises:
  assumes "fst (acquire_uconn i w) = Inl e"
  shows "uconn_open (snd (acquire_uconn i w)) = uconn_open w"
proof -
  let ?pre = "block [prompt, (if i then create_unpriveleged_user else return ())]"
  let ?w1 = "snd (?pre w)"
  have acq: "acquire_uconn i = bind ?pre (\<lambda>_. block [uconnect])"
    using block_append[of "[prompt, (if i then create_unpriveleged_user else return ())]"
        "[uconnect]"]
    by simp
  have u1: "uconn_open ?w1 = uconn_open w"
    using before_uconnect[of i w] by blast
  show ?thesis
  proof (cases "fst (?pre w)")
    case (Inl e')
    then have "acquire_uconn i w = (Inl e', ?w1)"
      unfolding acq by (cases "?pre w") (simp add: bind_def)
    then show ?thesis
      using u1 by simp
  next
    case (Inr u)
    then have r: "acquire_uconn i w = bind uconnect return ?w1"
      unfolding acq by (cases "?pre w") (simp add: bind_def)
    have "uconn_open (snd (bind uconnect return ?w1)) = uconn_open ?w1"
      using assms unfolding r
      by (auto simp: bind_def return_def uconnect_def record_event_def Let_def split: if_splits)
    then show ?thesis
      unfolding r using u1 by simp
  qed
qed

text \<open>
  Claim C8. The secondary session is released on every exit path. Once
  \<^verbatim>\<open>demo_unprivileged_user\<close> has acquired the session of the restricted role, the suite
  under \<^verbatim>\<open>try\<close> runs in the state of the acquisition, and however it ends, normally or
  with the exception of any of its statements or prompts, the session is rolled back and
  closed next, once and as the last two operations on it: after them the function only
  rolls the primary session back when the suite ended normally, or lets the suite's own
  exception through. When the acquisition itself fails there is no session to release:
  the function ends with that exception, no statement has been issued on the secondary
  session, and whether a secondary session is open is as before.
\<close>

theorem secondary_session_released:
  "(\<forall>w2. acquire_uconn init_demo w = (Inr (), w2) \<longrightarrow>
      fst (demo_unprivileged_user init_demo w) = fst (use_uconn w2) \<and>
      issued (demo_unprivileged_user init_demo) w =
        issued (acquire_uconn init_demo) w @ issued use_uconn w2 @ [URollback, UClose] @
        (if fst (use_uconn w2) = Inr () then [Rollback] else []) \<and>
      list_all (\<lambda>ev. ev \<noteq> URollback \<and> ev \<noteq> UClose)
        (issued (acquire_uconn init_demo) w @ issued use_uconn w2) \<and>
      \<not> uconn_open (snd (demo_unprivileged_user init_demo w)) \<and>
      utxn (snd (demo_unprivileged_user init_demo w)) = Idle) \<and>
   (\<forall>e. fst (acquire_uconn init_demo w) = Inl e \<longrightarrow>
      demo_unprivileged_user init_demo w = acquire_uconn init_demo w \<and>
      list_all (\<lambda>ev. \<forall>s. ev \<noteq> UExec s) (issued (demo_unprivileged_user init_demo) w) \<and>
      uconn_open (snd (demo_unprivileged_user init_demo w)) = uconn_open w)"
proof (intro conjI allI impI)
  fix w2
  assume acq: "acquire_uconn init_demo w = (Inr (), w2)"
  let ?D = "demo_unprivileged_user init_demo"
  let ?tf = "try_finally use_uconn (block [urollback, uclose])"
  let ?w3 = "snd (?tf w2)"
  have t2: "trace w2 = trace w @ issued (acquire_uconn init_demo) w"
    and e2: "list_all (\<lambda>ev. is_primary_or_prompt ev \<or> ev = UConnect)
      (issued (acquire_uconn init_demo) w)"
    using trace_acquire_uconn[of init_demo w] unfolding acq snd_conv by blast+
  have tb: "trace (snd (use_uconn w2)) = trace w2 @ issued use_uconn w2"
    and eb: "list_all (\<lambda>ev. ev \<noteq> URollback \<and> ev \<noteq> UClose) (issued use_uconn w2)"
    using trace_use_uconn[of w2] by blast+
  have t3: "trace ?w3 = trace w @ issued (acquire_uconn init_demo) w @ issued use_uconn w2 @
      [URollback, UClose]"
    unfolding released tb t2 by (simp del: block.simps)
  have u3: "uconn_open ?w3 = False" and x3: "utxn ?w3 = Idle"
    and f3: "fst (?tf w2) = fst (use_uconn w2)"
    by (rule released)+
  have D: "?D w = block [?tf, rollback] w2"
    unfolding demo_unprivileged_user_parts by (rule bind_Inr) (rule acq)
  show res: "fst (?D w) = fst (use_uconn w2)"
    unfolding D using f3
    by (cases "?tf w2")
       (auto simp: bind_def return_def rollback_def split: sum.splits simp del: block.simps
        simp add: block.simps(1) block.simps(2)[of "?tf"] block.simps(2)[of rollback])
  have fin: "trace (snd (?D w)) =
      trace ?w3 @ (if fst (use_uconn w2) = Inr () then [Rollback] else [])"
    and u: "uconn_open (snd (?D w)) = uconn_open ?w3"
    and x: "utxn (snd (?D w)) = utxn ?w3"
    unfolding D using f3
    by (cases "?tf w2";
        auto simp: bind_def return_def rollback_def record_event_def split: sum.splits
          simp del: block.simps
          simp add: block.simps(1) block.simps(2)[of "?tf"] block.simps(2)[of rollback])+
  show "issued ?D w = issued (acquire_uconn init_demo) w @ issued use_uconn w2 @
      [URollback, UClose] @ (if fst (use_uconn w2) = Inr () then [Rollback] else [])"
    unfolding issued_def[of ?D] fin t3 by (simp del: block.simps)
  show "list_all (\<lambda>ev. ev \<noteq> URollback \<and> ev \<noteq> UClose)
      (issued (acquire_uconn init_demo) w @ issued use_uconn w2)"
  proof -
    have "ev \<noteq> URollback \<and> ev \<noteq> UClose" if "is_primary_or_prompt ev \<or> ev = UConnect" for ev
      using that by (cases ev) simp_all
    then have "list_all (\<lambda>ev. ev \<noteq> URollback \<and> ev \<noteq> UClose)
        (issued (acquire_uconn init_demo) w)"
      using e2 unfolding list_all_iff by blast
    then show ?thesis
      using eb unfolding list_all_append by blast
  qed
  show "\<not> uconn_open (snd (?D w))"
    unfolding u u3 by simp
  show "utxn (snd (?D w)) = Idle"
    unfolding x x3 by simp
next
  fix e
  assume f: "fst (acquire_uconn init_demo w) = Inl e"
  let ?D = "demo_unprivileged_user init_demo"
  obtain w1 where f': "acquire_uconn init_demo w = (Inl e, w1)"
    using f by (cases "acquire_uconn init_demo w") (simp del: block.simps)
  show r: "?D w = acquire_uconn init_demo w"
    unfolding demo_unprivileged_user_parts f' by (rule bind_Inl) (rule f')
  have "issued ?D w = issued (acquire_uconn init_demo) w"
    unfolding issued_def r ..
  show "list_all (\<lambda>ev. \<forall>s. ev \<noteq> UExec s) (issued ?D w)"
  proof -
    have "\<forall>s. ev \<noteq> UExec s" if "is_primary_or_prompt ev \<or> ev = UConnect" for ev
      using that by (cases ev) simp_all
    moreover have "list_all (\<lambda>ev. is_primary_or_prompt ev \<or> ev = UConnect)
        (issued (acquire_uconn init_demo) w)"
      using trace_acquire_uconn[of init_demo w] by blast
    ultimately have "list_all (\<lambda>ev. \<forall>s. ev \<noteq> UExec s) (issued (acquire_uconn init_demo) w)"
      unfolding list_all_iff by blast
    then show ?thesis
      unfolding \<open>issued ?D w = issued (acquire_uconn init_demo) w\<close> .
  qed
  show "uconn_open (snd (?D w)) = uconn_open w"
    unfolding r by (rule acquire_uconn_raises[OF f])
qed


text \<open>
  The theorem on a server that has the namespace and both extensions but not yet the role:
  once with the second statement of the secondary session forced to fail, once with the
  login of the role refused.
\<close>

theorem secondary_session_released_witness:
  "fst (acquire_uconn True
     (process_start (stock_db\<lparr>schema := True, exts := [''plpgsql'', ''pg_trgm'', ''pg_stat_statements'']\<rparr>)
       (\<lambda>n. n = 12))) = Inr () \<and>
   fst (demo_unprivileged_user True
     (process_start (stock_db\<lparr>schema := True, exts := [''plpgsql'', ''pg_trgm'', ''pg_stat_statements'']\<rparr>)
       (\<lambda>n. n = 12))) = Inl (DbError SelectCurrentUser) \<and>
   issued (demo_unprivileged_user True)
     (process_start (stock_db\<lparr>schema := True, exts := [''plpgsql'', ''pg_trgm'', ''pg_stat_statements'']\<rparr>)
       (\<lambda>n. n = 12)) =
     [Prompt, Exec CreateUser, Exec GrantConnect, Exec GrantUsage, Exec AlterUserSearchPath,
      Commit, UConnect, UExec SelectPssUnqualified, Prompt, Exec CreateFunction,
      Exec GrantExecute, Commit, UExec SelectCurrentUser, URollback, UClose] \<and>
   \<not> uconn_open (snd (demo_unprivileged_user True
     (process_start (stock_db\<lparr>schema := True, exts := [''plpgsql'', ''pg_trgm'', ''pg_stat_statements'']\<rparr>)
       (\<lambda>n. n = 12)))) \<and>
   fst (acquire_uconn True
     (process_start (stock_db\<lparr>schema := True, exts := [''plpgsql'', ''pg_trgm'', ''pg_stat_statements'']\<rparr>)
       (\<lambda>n. n = 6))) = Inl ConnectError \<and>
   fst (demo_unprivileged_user True
     (process_start (stock_db\<lparr>schema := True, exts := [''plpgsql'', ''pg_trgm'', ''pg_stat_statements'']\<rparr>)
       (\<lambda>n. n = 6))) = Inl ConnectError \<and>
   list_all (\<lambda>ev. \<forall>s. ev \<noteq> UExec s) (issued (demo_unprivileged_user True)
     (process_start (stock_db\<lparr>schema := True, exts := [''plpgsql'', ''pg_trgm'', ''pg_stat_statements'']\<rparr>)
       (\<lambda>n. n = 6)))"
proof -
  let ?d = "stock_db\<lparr>schema := True, exts := [''plpgsql'', ''pg_trgm'', ''pg_stat_statements'']\<rparr>"
  let ?w = "process_start ?d (\<lambda>n. n = 12)"
  let ?v = "process_start ?d (\<lambda>n. n = 6)"
  let ?w2 = "snd (acquire_uconn True ?w)"
  have a: "fst (acquire_uconn True ?w) = Inr ()"
    by code_simp
  then have acq: "acquire_uconn True ?w = (Inr (), ?w2)"
    by (simp only: prod_eq_iff fst_conv snd_conv simp_thms)
  have u: "fst (use_uconn ?w2) = Inl (DbError SelectCurrentUser)"
    by code_simp
  have i1: "issued (acquire_uconn True) ?w =
      [Prompt, Exec CreateUser, Exec GrantConnect, Exec GrantUsage, Exec AlterUserSearchPath,
       Commit, UConnect]"
    by code_simp
  have i2: "issued use_uconn ?w2 =
      [UExec SelectPssUnqualified, Prompt, Exec CreateFunction, Exec GrantExecute, Commit,
       UExec SelectCurrentUser]"
    by code_simp
  have b: "fst (acquire_uconn True ?v) = Inl ConnectError"
    by code_simp
  from secondary_session_released[of True ?w] acq
  have "fst (demo_unprivileged_user True ?w) = fst (use_uconn ?w2) \<and>
      issued (demo_unprivileged_user True) ?w =
        issued (acquire_uconn True) ?w @ issued use_uconn ?w2 @ [URollback, UClose] @
        (if fst (use_uconn ?w2) = Inr () then [Rollback] else []) \<and>
      \<not> uconn_open (snd (demo_unprivileged_user True ?w))"
    by blast
  then have first: "fst (demo_unprivileged_user True ?w) = Inl (DbError SelectCurrentUser) \<and>
      issued (demo_unprivileged_user True) ?w =
        [Prompt, Exec CreateUser, Exec GrantConnect, Exec GrantUsage, Exec AlterUserSearchPath,
         Commit, UConnect, UExec SelectPssUnqualified, Prompt, Exec CreateFunction,
         Exec GrantExecute, Commit, UExec SelectCurrentUser, URollback, UClose] \<and>
      \<not> uconn_open (snd (demo_unprivileged_user True ?w))"
    unfolding u i1 i2 by simp
  from secondary_session_released[of True ?v] b
  have "demo_unprivileged_user True ?v = acquire_uconn True ?v \<and>
      list_all (\<lambda>ev. \<forall>s. ev \<noteq> UExec s) (issued (demo_unprivileged_user True) ?v)"
    by blast
  then have second: "fst (demo_unprivileged_user True ?v) = Inl ConnectError \<and>
      list_all (\<lambda>ev. \<forall>s. ev \<noteq> UExec s) (issued (demo_unprivileged_user True) ?v)"
    using b by (simp only:)
  from a b first second show ?thesis
    by blast
qed

end
